theory Spec2Isabelle
  imports Complex_Main "HOL-Library.Sublist"
begin

section \<open>Strings\<close>

text \<open>
  The service is TypeScript; its strings are sequences of code units. They are modelled as
  \<^typ>\<open>string\<close>, one \<^typ>\<open>char\<close> per code unit, for code units in the range 0..255 (Latin-1).
  The built-ins the analysis module calls are written out over that range:
  \<^item> \<open>isWhiteSpace\<close>: the characters that \<open>String.prototype.trim\<close> strips and that the
    regular-expression class \<open>\s\<close> matches: TAB, LF, VT, FF, CR, SPACE and NBSP;
  \<^item> \<open>toLowerCase\<close>: A..Z and the Latin-1 capitals (0xC0..0xDE without 0xD7) move up by 32;
  \<^item> \<open>trim\<close>: strips white space at both ends;
  \<^item> \<open>str_includes s t\<close>: \<open>s.includes(t)\<close>, true when \<open>t\<close> occurs in \<open>s\<close> as a contiguous run.
\<close>

definition isWhiteSpace :: "char \<Rightarrow> bool" where
  "isWhiteSpace c \<longleftrightarrow>
     c = CHR 0x09 \<or> c = CHR 0x0A \<or> c = CHR 0x0B \<or> c = CHR 0x0C \<or> c = CHR 0x0D
     \<or> c = CHR 0x20 \<or> c = CHR 0xA0"

definition toLowerCase_char :: "char \<Rightarrow> char" where
  "toLowerCase_char c =
     (let n = (of_char c :: nat)
      in if (65 \<le> n \<and> n \<le> 90) \<or> (192 \<le> n \<and> n \<le> 222 \<and> n \<noteq> 215)
         then char_of (n + 32) else c)"

definition toLowerCase :: "string \<Rightarrow> string" where
  "toLowerCase s = map toLowerCase_char s"

definition trim :: "string \<Rightarrow> string" where
  "trim s = rev (dropWhile isWhiteSpace (rev (dropWhile isWhiteSpace s)))"

fun str_includes :: "string \<Rightarrow> string \<Rightarrow> bool" where
  "str_includes [] t = (t = [])"
| "str_includes (c # cs) t = (prefix t (c # cs) \<or> str_includes cs t)"

section \<open>Data model (types of the analysis module)\<close>

datatype AnalysisStatus = PENDING | PROCESSING | COMPLETED | FAILED

datatype PlayerColor = White | Black

record AnalysisMetadata =
  white :: string
  black :: string
  result :: string
  event :: "string option"
  date :: "string option"
  eco :: "string option"
  opening_name :: "string option"

section \<open>Subject resolver\<close>

text \<open>\<open>determinePlayerColor\<close> of the analysis service; \<open>null\<close> is \<open>None\<close>.\<close>

definition determinePlayerColor :: "AnalysisMetadata \<Rightarrow> string \<Rightarrow> PlayerColor option" where
  "determinePlayerColor metadata playerName =
     (let normalizedName = trim (toLowerCase playerName);
          w = trim (toLowerCase (white metadata));
          b = trim (toLowerCase (black metadata))
      in if str_includes w normalizedName \<or> str_includes normalizedName w then Some White
         else if str_includes b normalizedName \<or> str_includes normalizedName b then Some Black
         else None)"

section \<open>Game-record parser\<close>

record ParsedGame =
  pgn :: string
  metadata :: AnalysisMetadata

subsection \<open>Header extraction\<close>

text \<open>
  \<open>getHeader name\<close> builds the regular expression \<open>\[name\s+"([^"]*)"\]\<close> with the flag
  \<open>i\<close> and returns the first capture of the leftmost match, or \<open>undefined\<close> (\<open>None\<close>).

  \<open>match_header name s\<close> is the attempt to match at the head of \<open>s\<close>; \<open>match_name\<close>
  matches the letters of the name and returns the text after them. The two repetitions
  admit one length only: \<open>\s+\<close> is followed by a double quote, which is not white space, and
  \<open>[^"]*\<close> is followed by a double quote, so each must take its maximal run and backtracking
  to a shorter run cannot succeed. The names passed are ASCII letters; under the flag \<open>i\<close> a
  character of the text matches such a letter when their upper-case forms agree
  (\<open>canonicalize\<close>; a character outside ASCII never canonicalizes to an ASCII letter).
\<close>

definition canonicalize :: "char \<Rightarrow> char" where
  "canonicalize c =
     (let n = (of_char c :: nat) in if 97 \<le> n \<and> n \<le> 122 then char_of (n - 32) else c)"

fun match_name :: "string \<Rightarrow> string \<Rightarrow> string option" where
  "match_name [] r = Some r"
| "match_name (n # ns) [] = None"
| "match_name (n # ns) (c # r) =
     (if canonicalize c = canonicalize n then match_name ns r else None)"

definition match_header :: "string \<Rightarrow> string \<Rightarrow> string option" where
  "match_header name s =
     (case s of
        [] \<Rightarrow> None
      | c # r \<Rightarrow>
          if c = CHR ''[''
          then
            (case match_name name r of
               None \<Rightarrow> None
             | Some r1 \<Rightarrow>
                 (case dropWhile isWhiteSpace r1 of
                    [] \<Rightarrow> None
                  | q # r3 \<Rightarrow>
                      if takeWhile isWhiteSpace r1 \<noteq> [] \<and> q = CHR 0x22
                      then (case dropWhile (\<lambda>x. x \<noteq> CHR 0x22) r3 of
                              a # b # _ \<Rightarrow>
                                if a = CHR 0x22 \<and> b = CHR '']''
                                then Some (takeWhile (\<lambda>x. x \<noteq> CHR 0x22) r3) else None
                            | _ \<Rightarrow> None)
                      else None))
          else None)"

fun getHeader :: "string \<Rightarrow> string \<Rightarrow> string option" where
  "getHeader name [] = None"
| "getHeader name (c # cs) =
     (case match_header name (c # cs) of
        Some v \<Rightarrow> Some v
      | None \<Rightarrow> getHeader name cs)"

text \<open>\<open>x || d\<close> on a string or \<open>undefined\<close>: the empty string is falsy as well.\<close>

definition or_default :: "string option \<Rightarrow> string \<Rightarrow> string" where
  "or_default x d = (case x of None \<Rightarrow> d | Some v \<Rightarrow> if v = [] then d else v)"

definition parseHeaders :: "string \<Rightarrow> AnalysisMetadata" where
  "parseHeaders p =
     \<lparr> white = or_default (getHeader ''White'' p) ''Unknown'',
       black = or_default (getHeader ''Black'' p) ''Unknown'',
       result = or_default (getHeader ''Result'' p) ''*'',
       event = getHeader ''Event'' p,
       date = getHeader ''Date'' p,
       eco = getHeader ''ECO'' p,
       opening_name = getHeader ''Opening'' p \<rparr>"

subsection \<open>Splitting\<close>

text \<open>
  \<open>splitPgn\<close> trims the content and splits it at the regular expression
  \<open>\n\s*\n(?=\[)\<close>. \<open>match_boundary s\<close> is the attempt to match at the head of \<open>s\<close> and
  returns the text after the match. The look-ahead wants an opening bracket, which is not
  white space, right after the second line feed, so \<open>\s*\<close> together with that line feed
  is the whole white-space run after the first line feed.

  \<open>split_loop piece s\<close> is \<open>String.prototype.split\<close>: \<open>piece\<close> is the text since the end of
  the last match, \<open>s\<close> the text from the current position on. A match is never empty, so
  the rule of \<open>split\<close> about empty matches at the start of a piece does not apply.
\<close>

definition LF :: char where
  "LF = CHR 0x0A"

definition match_boundary :: "string \<Rightarrow> string option" where
  "match_boundary s =
     (case s of
        [] \<Rightarrow> None
      | c # cs \<Rightarrow>
          if c = LF
          then (let ws = takeWhile isWhiteSpace cs; rest = dropWhile isWhiteSpace cs
                in if ws \<noteq> [] \<and> last ws = LF \<and> rest \<noteq> [] \<and> hd rest = CHR ''[''
                   then Some rest else None)
          else None)"

function split_loop :: "string \<Rightarrow> string \<Rightarrow> string list" where
  "split_loop piece [] = [piece]"
| "split_loop piece (c # cs) =
     (case match_boundary (c # cs) of
        Some rest \<Rightarrow> piece # split_loop [] rest
      | None \<Rightarrow> split_loop (piece @ [c]) cs)"
  by pat_completeness auto
termination
  by (relation "measure (\<lambda>(piece, s). length s)")
     (auto simp: match_boundary_def Let_def split: if_splits
           intro: le_imp_less_Suc length_dropWhile_le)

fun collect_games :: "string list \<Rightarrow> ParsedGame list" where
  "collect_games [] = []"
| "collect_games (gameStr # gs) =
     (let trimmed = trim gameStr
      in if length trimmed = 0 then collect_games gs
         else \<lparr> pgn = trimmed, metadata = parseHeaders trimmed \<rparr> # collect_games gs)"

definition splitPgn :: "string \<Rightarrow> ParsedGame list" where
  "splitPgn pgnContent =
     (let gameStrings = filter (\<lambda>g. 0 < length (trim g)) (split_loop [] (trim pgnContent))
      in collect_games gameStrings)"

section \<open>Job records and collaborators\<close>

text \<open>
  A value thrown by a collaborator is an \<open>Error\<close> object with its message, or something
  that is not an \<open>Error\<close>.
\<close>

datatype thrown = JsError string | JsOther

text \<open>A value that \<open>JSON.parse\<close> returns.\<close>

datatype json =
  JNull
| JBool bool
| JNumber real
| JString string
| JArray "json list"
| JObject "(string \<times> json) list"

text \<open>
  The schema declares \<open>result\<close> as a nested path with the four fields \<open>summary\<close>,
  \<open>phases\<close>, \<open>key_moments\<close> and \<open>recommendations\<close>, the last three being arrays. A
  document always has an object at a nested path; each of its fields is set or not. The
  values are kept as the reply of the model gives them: the casting that the persistence
  library applies to a value is not modelled, and a value that it cannot cast shows as a
  rejected save.

  When the object is empty, the stored document and its JSON form have no \<open>result\<close>
  field (the library leaves out empty objects): the job carries a result exactly when
  \<open>has_result\<close> holds. An array that the code does not set is the empty array when the
  document is created, so a new job carries \<open>default_result\<close>.
\<close>

record AnalysisResult =
  summary :: "json option"
  phases :: "json option"
  key_moments :: "json option"
  recommendations :: "json option"

definition no_result :: AnalysisResult where
  "no_result = \<lparr> summary = None, phases = None, key_moments = None, recommendations = None \<rparr>"

definition default_result :: AnalysisResult where
  "default_result =
     \<lparr> summary = None, phases = Some (JArray []), key_moments = Some (JArray []),
       recommendations = Some (JArray []) \<rparr>"

text \<open>
  The job document (\<open>IAnalysis\<close>). The fields \<open>pgn\<close>, \<open>metadata\<close> and \<open>result\<close> are called
  \<open>doc_pgn\<close>, \<open>doc_metadata\<close> and \<open>doc_result\<close> here, since a parsed game and the metadata
  have fields of the same names. An optional field that is not set is \<open>None\<close>. The time
  stamps \<open>created_at\<close> and \<open>updated_at\<close>, which the persistence library maintains by
  itself, are left out; \<open>completed_at\<close>, which the worker sets, is a number.
\<close>

record IAnalysis =
  analysis_id :: string
  user_id :: string
  batch_id :: "string option"
  status :: AnalysisStatus
  doc_pgn :: string
  gcs_url :: "string option"
  player_name :: string
  player_color :: "PlayerColor option"
  doc_metadata :: AnalysisMetadata
  doc_result :: AnalysisResult
  error :: "string option"
  completed_at :: "nat option"

definition has_result :: "IAnalysis \<Rightarrow> bool" where
  "has_result d \<longleftrightarrow> doc_result d \<noteq> no_result"

record AnalysisContext =
  ctx_pgn :: string
  ctx_white :: string
  ctx_black :: string
  ctx_result :: string
  ctx_event :: string
  ctx_date :: string
  ctx_playerName :: string
  ctx_playerColor :: "PlayerColor option"

text \<open>
  The collaborators outside the repository are parameters, collected in \<open>env\<close>:
  \<^item> \<open>uuidv4 n\<close>: the \<open>n\<close>-th identifier that \<open>uuidv4()\<close> returns;
  \<^item> \<open>file_download bucket path\<close>: the object storage; it returns the content or throws;
  \<^item> \<open>create_error ds d\<close>: the document store asked to create \<open>d\<close> when it holds \<open>ds\<close>;
    \<open>Some e\<close> when it rejects the document (validation of the schema, which requires
    \<open>analysis_id\<close>, \<open>user_id\<close>, \<open>pgn\<close> and \<open>player_name\<close>; unique index; failure of the
    store) and throws \<open>e\<close>;
  \<^item> \<open>useMockQueue\<close>: the configuration \<open>USE_MOCK_QUEUE\<close>;
  \<^item> \<open>enqueueAnalysis id\<close>: the managed queue; \<open>Some e\<close> when the submission throws \<open>e\<close>;
  \<^item> \<open>generateText ctx\<close>: the text model, called with the prompt built from \<open>ctx\<close>;
  \<^item> \<open>JSON_parse\<close>: \<open>JSON.parse\<close> on a text that starts with an opening brace and ends with
    a closing brace; it returns the members of the object, or throws;
  \<^item> \<open>save_error d\<close>: the document store asked to save the document \<open>d\<close>; \<open>Some e\<close> when
    it rejects the save (validation of the schema, failure of the store) and throws \<open>e\<close>;
    the documents that one call of the worker saves differ in their status, so a function
    of the document stands for any sequence of answers of the store within a call;
  \<^item> \<open>clock\<close>: the value of \<open>new Date()\<close>.

  The document store is the list \<open>docs\<close>, in insertion order; finding a document
  succeeds. \<open>dispatched\<close> lists the identifiers handed to the dispatch gateway,
  \<open>uuid_count\<close> counts the identifiers drawn so far.
\<close>

record env =
  uuidv4 :: "nat \<Rightarrow> string"
  file_download :: "string \<Rightarrow> string \<Rightarrow> thrown + string"
  create_error :: "IAnalysis list \<Rightarrow> IAnalysis \<Rightarrow> thrown option"
  useMockQueue :: bool
  enqueueAnalysis :: "string \<Rightarrow> thrown option"
  generateText :: "AnalysisContext \<Rightarrow> thrown + string"
  JSON_parse :: "string \<Rightarrow> thrown + (string \<times> json) list"
  save_error :: "IAnalysis \<Rightarrow> thrown option"
  clock :: nat

record sys =
  docs :: "IAnalysis list"
  dispatched :: "string list"
  uuid_count :: nat

subsection \<open>Object storage: \<open>downloadFile\<close>\<close>

text \<open>
  The reference must match \<open>^gs:\/\/([^/]+)\/(.+)$\<close>: after \<open>gs://\<close> a non-empty bucket
  name without a slash, a slash, and a non-empty path without a line terminator.
\<close>

definition parse_gcs_url :: "string \<Rightarrow> (string \<times> string) option" where
  "parse_gcs_url gcsUrl =
     (if take 5 gcsUrl = ''gs://''
      then (let r = drop 5 gcsUrl;
                bucketName = takeWhile (\<lambda>c. c \<noteq> CHR ''/'') r;
                r' = dropWhile (\<lambda>c. c \<noteq> CHR ''/'') r
            in if bucketName = [] \<or> r' = [] then None
               else (let filePath = tl r'
                     in if filePath \<noteq> [] \<and> list_all (\<lambda>c. c \<noteq> LF \<and> c \<noteq> CHR 0x0D) filePath
                        then Some (bucketName, filePath) else None))
      else None)"

definition downloadFile :: "env \<Rightarrow> string \<Rightarrow> thrown + string" where
  "downloadFile e gcsUrl =
     (case parse_gcs_url gcsUrl of
        None \<Rightarrow> Inl (JsError (''Invalid GCS URL format: '' @ gcsUrl))
      | Some (bucketName, filePath) \<Rightarrow> file_download e bucketName filePath)"

subsection \<open>Dispatch gateway: \<open>queueService.enqueue\<close>\<close>

text \<open>
  The mock queue schedules the worker and returns; the managed queue submits a task, and
  an error of the submission propagates.
\<close>

definition enqueue :: "env \<Rightarrow> string \<Rightarrow> sys \<Rightarrow> thrown option \<times> sys" where
  "enqueue e analysisId s =
     (if useMockQueue e then (None, s\<lparr>dispatched := dispatched s @ [analysisId]\<rparr>)
      else (case enqueueAnalysis e analysisId of
              Some err \<Rightarrow> (Some err, s)
            | None \<Rightarrow> (None, s\<lparr>dispatched := dispatched s @ [analysisId]\<rparr>)))"

subsection \<open>Analysis model: \<open>analyzeGame\<close>\<close>

text \<open>
  \<open>match_json\<close> is \<open>text.match(/\{[\s\S]*\}/)\<close>: from the first opening brace to the last
  closing brace after it. The worker passes the event and the date of the job with the
  default \<open>""\<close>; \<open>analyzeGame\<close> takes the metadata of the job and applies the default
  where it builds the context of the prompt.
\<close>

definition match_json :: "string \<Rightarrow> string option" where
  "match_json text =
     (case dropWhile (\<lambda>c. c \<noteq> CHR ''{'') text of
        [] \<Rightarrow> None
      | b # rest \<Rightarrow>
          if CHR ''}'' \<in> set rest
          then Some (b # rev (dropWhile (\<lambda>c. c \<noteq> CHR ''}'') (rev rest)))
          else None)"

definition analyzeGame ::
  "env \<Rightarrow> string \<Rightarrow> AnalysisMetadata \<Rightarrow> string \<Rightarrow> PlayerColor option
     \<Rightarrow> thrown + (string \<times> json) list"
where
  "analyzeGame e p md playerName playerColor =
     (let ctx = \<lparr> ctx_pgn = p, ctx_white = white md, ctx_black = black md,
                  ctx_result = result md,
                  ctx_event = or_default (event md) [], ctx_date = or_default (date md) [],
                  ctx_playerName = playerName, ctx_playerColor = playerColor \<rparr>
      in case generateText e ctx of
           Inl err \<Rightarrow> Inl err
         | Inr text \<Rightarrow>
             (case match_json text of
                None \<Rightarrow> Inl (JsError ''Failed to parse JSON from Gemini response'')
              | Some j \<Rightarrow> JSON_parse e j))"

section \<open>Bulk submission orchestrator\<close>

record SkippedGame =
  skipped_white :: string
  skipped_black :: string
  reason :: string

record BulkAnalysisResponse =
  resp_batch_id :: string
  analysis_ids :: "string list"
  total_games :: nat
  skipped_games :: "SkippedGame list option"

text \<open>The object pushed onto \<open>skippedGames\<close> for a game without the subject.\<close>

definition skip_entry :: "string \<Rightarrow> ParsedGame \<Rightarrow> SkippedGame" where
  "skip_entry playerName game =
     \<lparr> skipped_white = white (metadata game),
       skipped_black = black (metadata game),
       reason = ''Player \"'' @ playerName @ ''\" not found in this game'' \<rparr>"

text \<open>
  \<open>Analysis.create\<close>: a new document with the fields given by the orchestrator and the
  defaults of the schema, the empty array for each array of \<open>result\<close> that is not given,
  unless the store rejects it.
\<close>

definition or_empty_array :: "json option \<Rightarrow> json option" where
  "or_empty_array x = (case x of None \<Rightarrow> Some (JArray []) | Some v \<Rightarrow> Some v)"

definition apply_defaults :: "IAnalysis \<Rightarrow> IAnalysis" where
  "apply_defaults d =
     d\<lparr>doc_result :=
         (doc_result d)\<lparr>phases := or_empty_array (phases (doc_result d)),
                         key_moments := or_empty_array (key_moments (doc_result d)),
                         recommendations := or_empty_array (recommendations (doc_result d))\<rparr>\<rparr>"

definition Analysis_create :: "env \<Rightarrow> IAnalysis \<Rightarrow> sys \<Rightarrow> thrown option \<times> sys" where
  "Analysis_create e d s =
     (let doc = apply_defaults d
      in case create_error e (docs s) doc of
           Some err \<Rightarrow> (Some err, s)
         | None \<Rightarrow> (None, s\<lparr>docs := docs s @ [doc]\<rparr>))"

text \<open>
  The inner loop of \<open>processBulkAnalysis\<close>, over the games of one file. The loop state is
  the list of created identifiers, the list of skipped games and the system state; the
  first component of the value is the error thrown, if any.
\<close>

fun process_games ::
  "env \<Rightarrow> string \<Rightarrow> string \<Rightarrow> string \<Rightarrow> string \<Rightarrow> ParsedGame list
     \<Rightarrow> string list \<times> SkippedGame list \<times> sys
     \<Rightarrow> thrown option \<times> string list \<times> SkippedGame list \<times> sys"
where
  "process_games e batchId url userId playerName [] acc = (None, acc)"
| "process_games e batchId url userId playerName (game # games) (analysisIds, skippedGames, s) =
     (case determinePlayerColor (metadata game) playerName of
        None \<Rightarrow>
          process_games e batchId url userId playerName games
            (analysisIds, skippedGames @ [skip_entry playerName game], s)
      | Some playerColor \<Rightarrow>
          (let analysisId = ''ana_'' @ uuidv4 e (uuid_count s);
               s1 = s\<lparr>uuid_count := Suc (uuid_count s)\<rparr>
           in case Analysis_create e
                     \<lparr> analysis_id = analysisId, user_id = userId, batch_id = Some batchId,
                       status = PENDING, doc_pgn = pgn game, gcs_url = Some url,
                       player_name = playerName, player_color = Some playerColor,
                       doc_metadata = metadata game, doc_result = no_result, error = None,
                       completed_at = None \<rparr> s1 of
                (Some err, s2) \<Rightarrow> (Some err, analysisIds, skippedGames, s2)
              | (None, s2) \<Rightarrow>
                  (case enqueue e analysisId s2 of
                     (Some err, s3) \<Rightarrow> (Some err, analysisIds, skippedGames, s3)
                   | (None, s3) \<Rightarrow>
                       process_games e batchId url userId playerName games
                         (analysisIds @ [analysisId], skippedGames, s3))))"

text \<open>The outer loop, over the file references; the \<open>catch\<close> logs and throws again.\<close>

fun process_urls ::
  "env \<Rightarrow> string \<Rightarrow> string \<Rightarrow> string \<Rightarrow> string list
     \<Rightarrow> string list \<times> SkippedGame list \<times> sys
     \<Rightarrow> thrown option \<times> string list \<times> SkippedGame list \<times> sys"
where
  "process_urls e batchId userId playerName [] acc = (None, acc)"
| "process_urls e batchId userId playerName (url # urls) acc =
     (case downloadFile e url of
        Inl err \<Rightarrow> (Some err, acc)
      | Inr pgnContent \<Rightarrow>
          (case process_games e batchId url userId playerName (splitPgn pgnContent) acc of
             (Some err, acc') \<Rightarrow> (Some err, acc')
           | (None, acc') \<Rightarrow> process_urls e batchId userId playerName urls acc'))"

definition processBulkAnalysis ::
  "env \<Rightarrow> string list \<Rightarrow> string \<Rightarrow> string \<Rightarrow> sys \<Rightarrow> (thrown + BulkAnalysisResponse) \<times> sys"
where
  "processBulkAnalysis e urls userId playerName s =
     (let batchId = ''batch_'' @ uuidv4 e (uuid_count s);
          s0 = s\<lparr>uuid_count := Suc (uuid_count s)\<rparr>
      in case process_urls e batchId userId playerName urls ([], [], s0) of
           (Some err, analysisIds, skippedGames, s') \<Rightarrow> (Inl err, s')
         | (None, analysisIds, skippedGames, s') \<Rightarrow>
             (Inr \<lparr> resp_batch_id = batchId,
                    analysis_ids = analysisIds,
                    total_games = length analysisIds,
                    skipped_games = (if 0 < length skippedGames then Some skippedGames else None) \<rparr>,
              s'))"

section \<open>Status query\<close>

text \<open>
  \<open>getAnalysesStatus\<close>: the documents whose identifier is among the queried ones and whose
  owner is the caller, each written into the result object under its identifier.
\<close>

datatype StatusObject = StatusObject AnalysisStatus

definition getAnalysesStatus :: "string list \<Rightarrow> string \<Rightarrow> sys \<Rightarrow> (string \<rightharpoonup> StatusObject)" where
  "getAnalysesStatus analysisIds userId s =
     (let analyses = filter (\<lambda>d. analysis_id d \<in> set analysisIds \<and> user_id d = userId) (docs s)
      in fold (\<lambda>analysis r. r(analysis_id analysis \<mapsto> StatusObject (status analysis)))
              analyses Map.empty)"

section \<open>Worker\<close>

text \<open>
  \<open>findOne\<close> gives the position of the first matching document. \<open>save\<close> writes the
  document back to its position, unless the store rejects the save; then the store is
  left as it is and the document in memory keeps its changes.
\<close>

fun findOne :: "(IAnalysis \<Rightarrow> bool) \<Rightarrow> IAnalysis list \<Rightarrow> nat option" where
  "findOne P [] = None"
| "findOne P (d # ds) = (if P d then Some 0 else map_option Suc (findOne P ds))"

definition save :: "env \<Rightarrow> nat \<Rightarrow> IAnalysis \<Rightarrow> sys \<Rightarrow> thrown option \<times> sys" where
  "save e i d s =
     (case save_error e d of
        Some err \<Rightarrow> (Some err, s)
      | None \<Rightarrow> (None, s\<lparr>docs := (docs s)[i := d]\<rparr>))"

text \<open>
  The assignment \<open>analysis.result = result\<close>: the object at the nested path is replaced
  by the fields of the schema that the reply has; with a key that occurs twice, the
  last member counts.
\<close>

definition assign_result :: "(string \<times> json) list \<Rightarrow> AnalysisResult" where
  "assign_result members =
     \<lparr> summary = map_of (rev members) ''summary'',
       phases = map_of (rev members) ''phases'',
       key_moments = map_of (rev members) ''key_moments'',
       recommendations = map_of (rev members) ''recommendations'' \<rparr>"

text \<open>
  The \<open>catch\<close> block of \<open>processAnalysis\<close>: \<open>analysis\<close> is the document in memory, \<open>err\<close>
  the value caught, \<open>written\<close> the documents written so far. The save of the block is
  not guarded: when it is rejected, the call throws.
\<close>

definition catch_block ::
  "env \<Rightarrow> nat \<Rightarrow> IAnalysis \<Rightarrow> thrown \<Rightarrow> IAnalysis list \<Rightarrow> sys
     \<Rightarrow> thrown option \<times> IAnalysis list \<times> sys"
where
  "catch_block e i analysis err written s =
     (let a3 = analysis\<lparr>status := FAILED,
                         error := Some (case err of
                                          JsError m \<Rightarrow> m
                                        | JsOther \<Rightarrow> ''Unknown error'')\<rparr>
      in case save e i a3 s of
           (Some err', s') \<Rightarrow> (Some err', written, s')
         | (None, s') \<Rightarrow> (None, written @ [a3], s'))"

text \<open>
  \<open>processAnalysis\<close>: the first component is the error that leaves the call, \<open>None\<close> when
  the call returns normally; the second lists the documents written, in order.
\<close>

definition processAnalysis :: "env \<Rightarrow> string \<Rightarrow> sys \<Rightarrow> thrown option \<times> IAnalysis list \<times> sys" where
  "processAnalysis e analysisId s =
     (case findOne (\<lambda>d. analysis_id d = analysisId) (docs s) of
        None \<Rightarrow> (None, [], s)
      | Some i \<Rightarrow>
          (let analysis = docs s ! i
           in if status analysis \<noteq> PENDING then (None, [], s)
              else
                (let a1 = analysis\<lparr>status := PROCESSING\<rparr>
                 in case save e i a1 s of
                      (Some err, s1) \<Rightarrow> catch_block e i a1 err [] s1
                    | (None, s1) \<Rightarrow>
                        (case analyzeGame e (doc_pgn a1) (doc_metadata a1) (player_name a1)
                                (player_color a1) of
                           Inl err \<Rightarrow> catch_block e i a1 err [a1] s1
                         | Inr r \<Rightarrow>
                             (let a2 = a1\<lparr>doc_result := assign_result r,
                                           status := COMPLETED,
                                           completed_at := Some (clock e)\<rparr>
                              in case save e i a2 s1 of
                                   (Some err, s2) \<Rightarrow> catch_block e i a2 err [a1] s2
                                 | (None, s2) \<Rightarrow> (None, [a1, a2], s2))))))"

section \<open>Histories\<close>

text \<open>
  A history is a sequence of calls of the orchestrator and of the worker, each with its
  own collaborators, run one after the other from the empty system.
\<close>

datatype call =
  Submit env "string list" string string
| Work env string

fun step :: "call \<Rightarrow> sys \<Rightarrow> sys" where
  "step (Submit e urls userId playerName) s = snd (processBulkAnalysis e urls userId playerName s)"
| "step (Work e analysisId) s = snd (snd (processAnalysis e analysisId s))"

definition init :: sys where
  "init = \<lparr> docs = [], dispatched = [], uuid_count = 0 \<rparr>"

definition run :: "call list \<Rightarrow> sys" where
  "run calls = fold step calls init"

section \<open>Notions used to state the properties\<close>

text \<open>A game is resolved when the subject resolver finds a side for the subject.\<close>

definition resolved :: "string \<Rightarrow> ParsedGame \<Rightarrow> bool" where
  "resolved playerName game \<longleftrightarrow> determinePlayerColor (metadata game) playerName \<noteq> None"

text \<open>The games parsed from one file reference, and from a list of them.\<close>

definition games_of :: "env \<Rightarrow> string \<Rightarrow> ParsedGame list" where
  "games_of e url = (case downloadFile e url of Inl err \<Rightarrow> [] | Inr pgnContent \<Rightarrow> splitPgn pgnContent)"

definition all_games :: "env \<Rightarrow> string list \<Rightarrow> ParsedGame list" where
  "all_games e urls = concat (map (games_of e) urls)"

text \<open>
  No retrieval error: every file reference of the submission can be downloaded. No
  creation error: the document store accepts every document. No dispatch error: the
  gateway is the mock queue, or the managed queue accepts every identifier.

  The schema declares \<open>player_name\<close> as a required string, and the required validator
  of the persistence library rejects the empty string: \<open>requires_player_name\<close> says that
  the store rejects every job whose \<open>player_name\<close> is empty. \<open>accepts_jobs_of e name\<close>
  says that it accepts every job for the subject \<open>name\<close>.
\<close>

definition no_retrieval_error :: "env \<Rightarrow> string list \<Rightarrow> bool" where
  "no_retrieval_error e urls \<longleftrightarrow> list_all (\<lambda>url. \<not> isl (downloadFile e url)) urls"

definition no_creation_error :: "env \<Rightarrow> bool" where
  "no_creation_error e \<longleftrightarrow> (\<forall>ds d. create_error e ds d = None)"

definition accepts_jobs_of :: "env \<Rightarrow> string \<Rightarrow> bool" where
  "accepts_jobs_of e name \<longleftrightarrow> (\<forall>ds d. player_name d = name \<longrightarrow> create_error e ds d = None)"

definition requires_player_name :: "env \<Rightarrow> bool" where
  "requires_player_name e \<longleftrightarrow> (\<forall>ds d. player_name d = [] \<longrightarrow> create_error e ds d \<noteq> None)"

definition no_dispatch_error :: "env \<Rightarrow> bool" where
  "no_dispatch_error e \<longleftrightarrow> useMockQueue e \<or> (\<forall>i. enqueueAnalysis e i = None)"

text \<open>The number of skip entries of a response; the list is left out when it is empty.\<close>

definition skip_count :: "BulkAnalysisResponse \<Rightarrow> nat" where
  "skip_count resp = (case skipped_games resp of None \<Rightarrow> 0 | Some l \<Rightarrow> length l)"

text \<open>
  A job as the orchestrator creates it for the subject \<open>name\<close>: pending, with the result
  of the defaults, without failure reason, with the side the resolver found.
\<close>

definition created_for :: "string \<Rightarrow> IAnalysis \<Rightarrow> bool" where
  "created_for name d \<longleftrightarrow>
     status d = PENDING \<and> doc_result d = default_result \<and> error d = None
     \<and> player_name d = name
     \<and> player_color d = determinePlayerColor (doc_metadata d) name \<and> player_color d \<noteq> None"

text \<open>
  The position of a status along pending, processing, and then completed or failed.
\<close>

fun status_rank :: "AnalysisStatus \<Rightarrow> nat" where
  "status_rank PENDING = 0"
| "status_rank PROCESSING = 1"
| "status_rank COMPLETED = 2"
| "status_rank FAILED = 2"

text \<open>
  \<open>exclusive\<close> is the invariant that the data model states: a result and a failure
  reason never occur together, a result occurs in a completed job only, a failure reason
  in a failed job only. \<open>job_ok\<close> is what holds of the jobs instead: a pending or
  processing job carries the result of the defaults and no failure reason, a completed
  job carries no failure reason, a failed job carries one.
\<close>

definition exclusive :: "IAnalysis \<Rightarrow> bool" where
  "exclusive d \<longleftrightarrow>
     \<not> (has_result d \<and> error d \<noteq> None)
     \<and> (has_result d \<longrightarrow> status d = COMPLETED)
     \<and> (error d \<noteq> None \<longrightarrow> status d = FAILED)"

definition job_ok :: "IAnalysis \<Rightarrow> bool" where
  "job_ok d \<longleftrightarrow>
     (case status d of
        PENDING \<Rightarrow> doc_result d = default_result \<and> error d = None
      | PROCESSING \<Rightarrow> doc_result d = default_result \<and> error d = None
      | COMPLETED \<Rightarrow> error d = None
      | FAILED \<Rightarrow> error d \<noteq> None)"

text \<open>The failure reason the worker stores for a thrown value.\<close>

definition failure_reason :: "thrown \<Rightarrow> string" where
  "failure_reason err = (case err of JsError m \<Rightarrow> m | JsOther \<Rightarrow> ''Unknown error'')"

text \<open>The call of the analysis model that the worker makes for a job.\<close>

definition model_call :: "env \<Rightarrow> IAnalysis \<Rightarrow> thrown + (string \<times> json) list" where
  "model_call e d = analyzeGame e (doc_pgn d) (doc_metadata d) (player_name d) (player_color d)"

text \<open>The identifiers of the jobs of an owner.\<close>

definition owned_ids :: "string \<Rightarrow> sys \<Rightarrow> string set" where
  "owned_ids userId s = set (map analysis_id (filter (\<lambda>d. user_id d = userId) (docs s)))"

text \<open>
  The header pattern, read as a description of the text: at position \<open>i\<close> of \<open>p\<close> stand
  an opening bracket, the letters of the name in any case, white space, and the value \<open>v\<close>
  between double quotes, followed by a closing bracket. The recognized fields are the
  seven that \<open>parseHeaders\<close> asks for.
\<close>

definition header_at :: "string \<Rightarrow> string \<Rightarrow> nat \<Rightarrow> string \<Rightarrow> bool" where
  "header_at name v i p \<longleftrightarrow>
     (\<exists>tag ws post.
        drop i p = [CHR ''[''] @ tag @ ws @ [CHR 0x22] @ v @ [CHR 0x22, CHR '']''] @ post
        \<and> map canonicalize tag = map canonicalize name
        \<and> ws \<noteq> [] \<and> list_all isWhiteSpace ws \<and> CHR 0x22 \<notin> set v)"

definition has_header :: "string \<Rightarrow> string \<Rightarrow> bool" where
  "has_header name p \<longleftrightarrow> (\<exists>i v. header_at name v i p)"

text \<open>The value \<open>v\<close> stands in the leftmost header of the name.\<close>

definition first_header :: "string \<Rightarrow> string \<Rightarrow> string \<Rightarrow> bool" where
  "first_header name v p \<longleftrightarrow>
     (\<exists>i. header_at name v i p \<and> (\<forall>j<i. \<forall>v'. \<not> header_at name v' j p))"

text \<open>
  Well-formed multi-game text. A game record starts with the opening bracket of its
  header block, does not end in white space, and has no place inside where a blank-line
  boundary is followed by an opening bracket. A blank-line boundary is white space that
  ends in a line feed and has a line feed before it. The text is the first record, then
  each further record after its boundary.
\<close>

fun boundary_free :: "string \<Rightarrow> bool" where
  "boundary_free [] = True"
| "boundary_free (c # cs) = (match_boundary (c # cs) = None \<and> boundary_free cs)"

definition game_record :: "string \<Rightarrow> bool" where
  "game_record g \<longleftrightarrow>
     g \<noteq> [] \<and> hd g = CHR ''['' \<and> \<not> isWhiteSpace (last g) \<and> boundary_free g"

definition blank_boundary :: "string \<Rightarrow> bool" where
  "blank_boundary b \<longleftrightarrow>
     list_all isWhiteSpace b \<and> b \<noteq> [] \<and> last b = LF \<and> LF \<in> set (butlast b)"

definition join_games :: "string \<Rightarrow> (string \<times> string) list \<Rightarrow> string" where
  "join_games g rest = g @ concat (map (\<lambda>(b, g'). b @ g') rest)"

definition parsed :: "string \<Rightarrow> ParsedGame" where
  "parsed t = \<lparr> pgn = t, metadata = parseHeaders t \<rparr>"

section \<open>Example data\<close>

text \<open>
  Two files: the first holds two games in which Ann plays, the second one game in which
  she does not. The storage of the example knows these two objects only; its document
  store accepts every document and every save; its queue is the mock queue; its text
  model fails.
\<close>

definition game_ann_white :: string where
  "game_ann_white = ''[White \"Ann\"]'' @ [LF] @ ''[Black \"Bob\"]'' @ [LF, LF] @ ''1. e4''"

definition game_ann_black :: string where
  "game_ann_black = ''[White \"Carl\"]'' @ [LF] @ ''[black \"ann lee\"]'' @ [LF, LF] @ ''1. d4''"

definition game_other :: string where
  "game_other = ''[White \"Dan\"]'' @ [LF, LF] @ ''1. c4''"

definition file_a :: string where
  "file_a = game_ann_white @ [LF, LF] @ game_ann_black @ [LF]"

definition example_env :: env where
  "example_env =
     \<lparr> uuidv4 = (\<lambda>n. replicate (Suc n) (CHR ''x'')),
       file_download =
         (\<lambda>bucketName filePath.
            if filePath = ''a.pgn'' then Inr file_a
            else if filePath = ''b.pgn'' then Inr game_other
            else Inl (JsError ''No such object'')),
       create_error = (\<lambda>ds d. None),
       useMockQueue = True,
       enqueueAnalysis = (\<lambda>i. None),
       generateText = (\<lambda>ctx. Inl (JsError ''quota exceeded'')),
       JSON_parse = (\<lambda>j. Inl (JsError ''Unexpected token'')),
       save_error = (\<lambda>d. None),
       clock = 0 \<rparr>"

definition example_urls :: "string list" where
  "example_urls = [''gs://games/a.pgn'', ''gs://games/b.pgn'']"

text \<open>The three games as the parser returns them.\<close>

definition parsed_ann_white :: ParsedGame where
  "parsed_ann_white =
     \<lparr> pgn = game_ann_white,
       metadata = \<lparr> white = ''Ann'', black = ''Bob'', result = ''*'', event = None,
                    date = None, eco = None, opening_name = None \<rparr> \<rparr>"

definition parsed_ann_black :: ParsedGame where
  "parsed_ann_black =
     \<lparr> pgn = game_ann_black,
       metadata = \<lparr> white = ''Carl'', black = ''ann lee'', result = ''*'', event = None,
                    date = None, eco = None, opening_name = None \<rparr> \<rparr>"

definition parsed_other :: ParsedGame where
  "parsed_other =
     \<lparr> pgn = game_other,
       metadata = \<lparr> white = ''Dan'', black = ''Unknown'', result = ''*'', event = None,
                    date = None, eco = None, opening_name = None \<rparr> \<rparr>"

text \<open>
  The response to the example submission for the subject Ann, and the system after it,
  with two pending jobs; the same system after the worker has run on the first job; and
  collaborators whose text model throws an \<open>Error\<close> with an empty message.
\<close>

definition job_ann_white :: IAnalysis where
  "job_ann_white =
     \<lparr> analysis_id = ''ana_xx'', user_id = ''guest'', batch_id = Some ''batch_x'',
       status = PENDING, doc_pgn = game_ann_white, gcs_url = Some ''gs://games/a.pgn'',
       player_name = ''Ann'', player_color = Some White,
       doc_metadata = metadata parsed_ann_white, doc_result = default_result, error = None,
       completed_at = None \<rparr>"

definition job_ann_black :: IAnalysis where
  "job_ann_black =
     \<lparr> analysis_id = ''ana_xxx'', user_id = ''guest'', batch_id = Some ''batch_x'',
       status = PENDING, doc_pgn = game_ann_black, gcs_url = Some ''gs://games/a.pgn'',
       player_name = ''Ann'', player_color = Some Black,
       doc_metadata = metadata parsed_ann_black, doc_result = default_result, error = None,
       completed_at = None \<rparr>"

definition example_response :: BulkAnalysisResponse where
  "example_response =
     \<lparr> resp_batch_id = ''batch_x'', analysis_ids = [''ana_xx'', ''ana_xxx''], total_games = 2,
       skipped_games = Some [skip_entry ''Ann'' parsed_other] \<rparr>"

definition example_pending :: sys where
  "example_pending =
     \<lparr> docs = [job_ann_white, job_ann_black], dispatched = [''ana_xx'', ''ana_xxx''],
       uuid_count = 3 \<rparr>"

definition job_ann_white_failed :: IAnalysis where
  "job_ann_white_failed = job_ann_white\<lparr>status := FAILED, error := Some ''quota exceeded''\<rparr>"

definition example_worked :: sys where
  "example_worked = example_pending\<lparr>docs := [job_ann_white_failed, job_ann_black]\<rparr>"

definition example_history :: "call list" where
  "example_history =
     [Submit example_env example_urls ''guest'' ''Ann'', Work example_env ''ana_xx'']"

definition silent_env :: env where
  "silent_env = example_env\<lparr>generateText := (\<lambda>ctx. Inl (JsError []))\<rparr>"

text \<open>
  Collaborators whose document store rejects the save of a failed job, and the system
  that the worker then leaves for the first job of the example.
\<close>

definition rejecting_env :: env where
  "rejecting_env =
     example_env\<lparr>save_error :=
       (\<lambda>d. if status d = FAILED then Some (JsError ''connection closed'') else None)\<rparr>"

definition example_stuck :: sys where
  "example_stuck =
     example_pending\<lparr>docs := [job_ann_white\<lparr>status := PROCESSING\<rparr>, job_ann_black]\<rparr>"

text \<open>
  Collaborators whose text model answers with a summary and whose document store rejects
  the save of a completed job; the job that the worker then stores for the first job of
  the example, and the system that it leaves.
\<close>

definition flaky_env :: env where
  "flaky_env =
     example_env\<lparr>generateText := (\<lambda>ctx. Inr ''{\"summary\": \"ok\"}''),
                  JSON_parse := (\<lambda>j. Inr [(''summary'', JString ''ok'')]),
                  save_error :=
                    (\<lambda>d. if status d = COMPLETED then Some (JsError ''connection closed'')
                         else None)\<rparr>"

definition job_ann_white_mixed :: IAnalysis where
  "job_ann_white_mixed =
     job_ann_white\<lparr>doc_result := assign_result [(''summary'', JString ''ok'')],
                    status := FAILED, error := Some ''connection closed'',
                    completed_at := Some 0\<rparr>"

definition example_mixed :: sys where
  "example_mixed = example_pending\<lparr>docs := [job_ann_white_mixed, job_ann_black]\<rparr>"

text \<open>
  Collaborators whose document store applies the required validator to \<open>player_name\<close>.
\<close>

definition strict_env :: env where
  "strict_env =
     example_env\<lparr>create_error :=
       (\<lambda>ds d. if player_name d = []
               then Some (JsError ''Analysis validation failed: player_name is required'')
               else None)\<rparr>"

section \<open>Properties of the string functions\<close>

lemma isWhiteSpace_iff:
  "isWhiteSpace c \<longleftrightarrow> (of_char c :: nat) \<in> {9, 10, 11, 12, 13, 32, 160}"
proof -
  have h: "\<And>d. (c = d) = ((of_char c :: nat) = of_char d)" by simp
  show ?thesis unfolding isWhiteSpace_def h by simp
qed

lemma isWhiteSpace_toLowerCase_char: "isWhiteSpace (toLowerCase_char c) = isWhiteSpace c"
  by (auto simp: isWhiteSpace_iff toLowerCase_char_def Let_def)

lemma dropWhile_all: "list_all P s \<Longrightarrow> dropWhile P s = []"
  by (induction s) auto

lemma trim_blank: "list_all isWhiteSpace s \<Longrightarrow> trim s = []"
  by (simp add: trim_def dropWhile_all)

lemma toLowerCase_blank: "list_all isWhiteSpace s \<Longrightarrow> list_all isWhiteSpace (toLowerCase s)"
  by (simp add: toLowerCase_def list_all_iff isWhiteSpace_toLowerCase_char)

lemma trim_core:
  assumes "list_all isWhiteSpace a" "list_all isWhiteSpace b"
    and "t \<noteq> []" "\<not> isWhiteSpace (hd t)" "\<not> isWhiteSpace (last t)"
  shows "trim (a @ t @ b) = t"
proof -
  have 1: "dropWhile isWhiteSpace (a @ t @ b) = t @ b"
    using assms by (cases t) (auto simp: dropWhile_append list_all_iff)
  have 2: "dropWhile isWhiteSpace (rev (t @ b)) = rev t"
    using assms by (cases t rule: rev_cases) (auto simp: dropWhile_append list_all_iff)
  show ?thesis by (simp add: trim_def 1 2 del: rev_append)
qed

lemma dropWhile_ws_prefix:
  "list_all isWhiteSpace a \<Longrightarrow> dropWhile isWhiteSpace (a @ y) = dropWhile isWhiteSpace y"
  by (induction a) auto

lemma trim_ws_around:
  assumes "list_all isWhiteSpace a" "list_all isWhiteSpace b"
  shows "trim (a @ x @ b) = trim x"
proof (cases "list_all isWhiteSpace x")
  case True
  with assms have "list_all isWhiteSpace (a @ x @ b)" by simp
  with True show ?thesis by (simp only: trim_blank)
next
  case False
  then have d: "dropWhile isWhiteSpace (x @ b) = dropWhile isWhiteSpace x @ b"
    by (auto simp: dropWhile_append list_all_iff)
  from assms(2) have rb: "list_all isWhiteSpace (rev b)" by (simp add: list_all_iff)
  show ?thesis
    unfolding trim_def dropWhile_ws_prefix[OF assms(1)] d rev_append
      dropWhile_ws_prefix[OF rb] ..
qed

lemma str_includes_sublist: "str_includes s t \<longleftrightarrow> sublist t s"
  by (induction s) (auto simp: sublist_Cons_right)

section \<open>The example, evaluated\<close>

lemma ex_download_a: "downloadFile example_env ''gs://games/a.pgn'' = Inr file_a"
  by code_simp

lemma ex_download_b: "downloadFile example_env ''gs://games/b.pgn'' = Inr game_other"
  by code_simp

lemma ex_download_c:
  "downloadFile example_env ''games/c.pgn'' = Inl (JsError ''Invalid GCS URL format: games/c.pgn'')"
  by code_simp

lemma ex_split_a: "splitPgn file_a = [parsed_ann_white, parsed_ann_black]"
  by code_simp

lemma ex_split_b: "splitPgn game_other = [parsed_other]"
  by code_simp

lemma ex_color:
  "determinePlayerColor (metadata parsed_ann_white) ''Ann'' = Some White"
  "determinePlayerColor (metadata parsed_ann_black) ''Ann'' = Some Black"
  "determinePlayerColor (metadata parsed_other) ''Ann'' = None"
  by code_simp+

lemma ex_pgn:
  "pgn parsed_ann_white = game_ann_white" "pgn parsed_ann_black = game_ann_black"
  by (simp_all add: parsed_ann_white_def parsed_ann_black_def)

lemma ex_all_games:
  "all_games example_env example_urls = [parsed_ann_white, parsed_ann_black, parsed_other]"
  by (simp add: all_games_def games_of_def example_urls_def ex_download_a ex_download_b
        ex_split_a ex_split_b)

lemma ex_submit:
  "processBulkAnalysis example_env example_urls ''guest'' ''Ann'' init
     = (Inr example_response, example_pending)"
proof -
  have e: "uuidv4 example_env = (\<lambda>n. replicate (Suc n) (CHR ''x''))" "useMockQueue example_env"
    "create_error example_env = (\<lambda>ds d. None)"
    by (simp_all add: example_env_def)
  show ?thesis
    by (simp add: processBulkAnalysis_def example_urls_def ex_download_a ex_download_b
          ex_split_a ex_split_b ex_color ex_pgn e enqueue_def Analysis_create_def init_def
          apply_defaults_def or_empty_array_def no_result_def default_result_def
          example_response_def example_pending_def job_ann_white_def job_ann_black_def
          Let_def eval_nat_numeral)
qed

lemma ex_work:
  "processAnalysis example_env ''ana_xx'' example_pending
     = (None, [job_ann_white\<lparr>status := PROCESSING\<rparr>, job_ann_white_failed], example_worked)"
  by code_simp

lemma ex_model:
  "model_call example_env (docs example_pending ! 0) = Inl (JsError ''quota exceeded'')"
  "model_call rejecting_env (docs example_pending ! 0) = Inl (JsError ''quota exceeded'')"
  "model_call silent_env (docs example_pending ! 0) = Inl (JsError [])"
  by code_simp+

lemma ex_work_rejecting:
  "processAnalysis rejecting_env ''ana_xx'' example_pending
     = (Some (JsError ''connection closed''), [job_ann_white\<lparr>status := PROCESSING\<rparr>],
        example_stuck)"
  by code_simp

lemma ex_work_flaky:
  "processAnalysis flaky_env ''ana_xx'' example_pending
     = (None, [job_ann_white\<lparr>status := PROCESSING\<rparr>, job_ann_white_mixed], example_mixed)"
  by code_simp

lemma ex_run: "run [Submit example_env example_urls ''guest'' ''Ann''] = example_pending"
  "run example_history = example_worked"
  by (simp_all add: run_def example_history_def ex_submit ex_work)

section \<open>The subject resolver\<close>

text \<open>
  Claim C2. The resolver lower-cases and trims the subject name and the two participant
  names. It answers white when the normalized subject name occurs in the normalized white
  name or the normalized white name occurs in it; otherwise black, under the same test
  against the black name; otherwise no match. When both sides match, the answer is white.
  White space around the subject name and the case of its letters do not change the
  answer. The resolver is a total function: it has a value for every metadata and every
  name.
\<close>

theorem determinePlayerColor_spec:
  "determinePlayerColor md playerName =
     (let n = trim (toLowerCase playerName);
          w = trim (toLowerCase (white md));
          b = trim (toLowerCase (black md))
      in if sublist n w \<or> sublist w n then Some White
         else if sublist n b \<or> sublist b n then Some Black
         else None)
   \<and> (list_all isWhiteSpace pre \<and> list_all isWhiteSpace post \<longrightarrow>
        determinePlayerColor md (pre @ playerName @ post) = determinePlayerColor md playerName)
   \<and> (toLowerCase n' = toLowerCase playerName \<longrightarrow>
        determinePlayerColor md n' = determinePlayerColor md playerName)"
proof (intro conjI impI)
  show "determinePlayerColor md playerName =
     (let n = trim (toLowerCase playerName);
          w = trim (toLowerCase (white md));
          b = trim (toLowerCase (black md))
      in if sublist n w \<or> sublist w n then Some White
         else if sublist n b \<or> sublist b n then Some Black
         else None)"
    by (simp add: determinePlayerColor_def str_includes_sublist Let_def)
next
  assume w: "list_all isWhiteSpace pre \<and> list_all isWhiteSpace post"
  then have "list_all isWhiteSpace (toLowerCase pre)" "list_all isWhiteSpace (toLowerCase post)"
    by (simp_all add: toLowerCase_blank)
  from trim_ws_around[OF this, of "toLowerCase playerName"]
  have "trim (toLowerCase (pre @ playerName @ post)) = trim (toLowerCase playerName)"
    by (simp add: toLowerCase_def)
  then show "determinePlayerColor md (pre @ playerName @ post) = determinePlayerColor md playerName"
    by (simp add: determinePlayerColor_def)
next
  assume "toLowerCase n' = toLowerCase playerName"
  then show "determinePlayerColor md n' = determinePlayerColor md playerName"
    by (simp add: determinePlayerColor_def)
qed

theorem determinePlayerColor_spec_witness:
  "determinePlayerColor (metadata parsed_ann_black) '' ANN '' = Some Black
   \<and> \<not> sublist (trim (toLowerCase '' ANN '')) (trim (toLowerCase ''Carl''))
   \<and> sublist (trim (toLowerCase '' ANN '')) (trim (toLowerCase ''ann lee''))"
proof -
  have n: "trim (toLowerCase '' ANN '') = ''ann''" by code_simp
  have w: "trim (toLowerCase ''Carl'') = ''carl''" by code_simp
  have b: "trim (toLowerCase ''ann lee'') = ''ann lee''" by code_simp
  have 1: "\<not> sublist ''ann'' ''carl''" "\<not> sublist ''carl'' ''ann''" "sublist ''ann'' ''ann lee''"
    by (simp_all add: sublist_code)
  show ?thesis
    using determinePlayerColor_spec [of "metadata parsed_ann_black" "'' ANN ''"]
    by (simp add: parsed_ann_black_def n w b 1)
qed

section \<open>The bulk submission orchestrator\<close>

lemma process_games_ok:
  "process_games e b url uid name games (ids, sk, s) = (None, ids', sk', s') \<Longrightarrow>
     length ids' = length ids + length (filter (resolved name) games)
     \<and> sk' = sk @ map (skip_entry name) (filter (\<lambda>g. \<not> resolved name g) games)"
proof (induction games arbitrary: ids sk s)
  case Nil
  then show ?case by simp
next
  case (Cons g games)
  show ?case
  proof (cases "determinePlayerColor (metadata g) name")
    case None
    with Cons.prems
    have "process_games e b url uid name games (ids, sk @ [skip_entry name g], s)
            = (None, ids', sk', s')"
      by simp
    from Cons.IH[OF this] None show ?thesis
      by (simp add: resolved_def)
  next
    case (Some c)
    with Cons.prems obtain aid s3 where
      "process_games e b url uid name games (ids @ [aid], sk, s3) = (None, ids', sk', s')"
      by (auto simp: Let_def split: prod.splits option.splits)
    from Cons.IH[OF this] Some show ?thesis
      by (simp add: resolved_def)
  qed
qed

lemma process_urls_ok:
  "process_urls e b uid name urls (ids, sk, s) = (None, ids', sk', s') \<Longrightarrow>
     length ids' = length ids + length (filter (resolved name) (all_games e urls))
     \<and> sk' = sk @ map (skip_entry name) (filter (\<lambda>g. \<not> resolved name g) (all_games e urls))
     \<and> no_retrieval_error e urls"
proof (induction urls arbitrary: ids sk s)
  case Nil
  then show ?case by (simp add: all_games_def no_retrieval_error_def)
next
  case (Cons u urls)
  from Cons.prems obtain c where c: "downloadFile e u = Inr c"
    by (auto split: sum.splits)
  with Cons.prems obtain ids1 sk1 s1 where
    g: "process_games e b u uid name (splitPgn c) (ids, sk, s) = (None, ids1, sk1, s1)"
    and r: "process_urls e b uid name urls (ids1, sk1, s1) = (None, ids', sk', s')"
    by (auto split: prod.splits option.splits)
  from process_games_ok[OF g] Cons.IH[OF r] c show ?case
    by (simp add: all_games_def games_of_def no_retrieval_error_def)
qed

lemma enqueue_ok:
  "no_dispatch_error e \<Longrightarrow> enqueue e i s = (None, s\<lparr>dispatched := dispatched s @ [i]\<rparr>)"
  by (auto simp: no_dispatch_error_def enqueue_def split: option.splits)

lemma apply_defaults_fields:
  "player_name (apply_defaults d) = player_name d"
  "player_color (apply_defaults d) = player_color d"
  "doc_metadata (apply_defaults d) = doc_metadata d"
  "status (apply_defaults d) = status d"
  "error (apply_defaults d) = error d"
  by (simp_all add: apply_defaults_def)

lemma apply_defaults_no_result:
  "doc_result d = no_result \<Longrightarrow> doc_result (apply_defaults d) = default_result"
  by (simp add: apply_defaults_def no_result_def default_result_def or_empty_array_def)

lemma no_creation_error_accepts: "no_creation_error e \<Longrightarrow> accepts_jobs_of e name"
  by (simp add: no_creation_error_def accepts_jobs_of_def)

lemma Analysis_create_ok:
  "accepts_jobs_of e (player_name d) \<Longrightarrow>
   Analysis_create e d s = (None, s\<lparr>docs := docs s @ [apply_defaults d]\<rparr>)"
  by (simp add: accepts_jobs_of_def Analysis_create_def apply_defaults_fields)

lemma process_games_returns:
  "accepts_jobs_of e name \<Longrightarrow> no_dispatch_error e \<Longrightarrow>
   fst (process_games e b url uid name games acc) = None"
proof (induction games arbitrary: acc)
  case Nil
  then show ?case by simp
next
  case (Cons g games)
  obtain ids sk s where acc: "acc = (ids, sk, s)" by (cases acc) auto
  show ?case using Cons
    by (auto simp: acc Let_def enqueue_ok Analysis_create_ok split: option.splits prod.splits)
qed

lemma process_urls_returns:
  "accepts_jobs_of e name \<Longrightarrow> no_dispatch_error e \<Longrightarrow> no_retrieval_error e urls \<Longrightarrow>
   fst (process_urls e b uid name urls acc) = None"
proof (induction urls arbitrary: acc)
  case Nil
  then show ?case by simp
next
  case (Cons u urls)
  then obtain c where c: "downloadFile e u = Inr c"
    by (cases "downloadFile e u") (auto simp: no_retrieval_error_def)
  show ?case
    using Cons process_games_returns[OF Cons.prems(1,2), of b u uid "splitPgn c" acc]
    by (auto simp: c no_retrieval_error_def split: option.splits prod.splits)
qed

lemma processBulkAnalysis_Inr:
  assumes "processBulkAnalysis e urls uid name s = (Inr resp, s')"
  shows "length (analysis_ids resp) = length (filter (resolved name) (all_games e urls))
         \<and> skip_count resp = length (filter (\<lambda>g. \<not> resolved name g) (all_games e urls))
         \<and> skipped_games resp =
             (if filter (\<lambda>g. \<not> resolved name g) (all_games e urls) = [] then None
              else Some (map (skip_entry name)
                           (filter (\<lambda>g. \<not> resolved name g) (all_games e urls))))"
proof -
  from assms obtain ids sk where
    r: "process_urls e (''batch_'' @ uuidv4 e (uuid_count s)) uid name urls
          ([], [], s\<lparr>uuid_count := Suc (uuid_count s)\<rparr>) = (None, ids, sk, s')"
    and resp: "analysis_ids resp = ids"
              "skipped_games resp = (if 0 < length sk then Some sk else None)"
    by (auto simp: processBulkAnalysis_def Let_def split: prod.splits option.splits)
  from process_urls_ok[OF r] resp show ?thesis
    by (auto simp: skip_count_def)
qed

lemma processBulkAnalysis_returns:
  assumes "no_retrieval_error e urls" "accepts_jobs_of e name" "no_dispatch_error e"
  shows "\<exists>resp s'. processBulkAnalysis e urls uid name s = (Inr resp, s')"
  using process_urls_returns[OF assms(2) assms(3) assms(1),
          of "''batch_'' @ uuidv4 e (uuid_count s)"
          uid "([], [], s\<lparr>uuid_count := Suc (uuid_count s)\<rparr>)"]
  by (auto simp: processBulkAnalysis_def Let_def split: prod.splits option.splits)

lemma filter_partition_length:
  "length (filter P xs) + length (filter (\<lambda>x. \<not> P x) xs) = length xs"
  by (induction xs) auto

text \<open>
  Claim C1. In every response that the bulk submission returns, the number of created
  job identifiers plus the number of skip entries is the number of games parsed from all
  the submitted files: each resolved game gives one identifier, each other game one skip
  entry. The submission returns a response when no retrieval error and no dispatch error
  occurs and the document store accepts the jobs.
\<close>

theorem bulk_created_plus_skipped:
  "(no_retrieval_error e urls \<and> no_creation_error e \<and> no_dispatch_error e \<longrightarrow>
      (\<exists>resp s'. processBulkAnalysis e urls uid name s = (Inr resp, s')))
   \<and> (\<forall>resp s'. processBulkAnalysis e urls uid name s = (Inr resp, s') \<longrightarrow>
         length (analysis_ids resp) + skip_count resp = length (all_games e urls)
         \<and> length (analysis_ids resp) = length (filter (resolved name) (all_games e urls))
         \<and> skip_count resp = length (filter (\<lambda>g. \<not> resolved name g) (all_games e urls))
         \<and> total_games resp = length (analysis_ids resp))"
proof (intro conjI allI impI)
  assume "no_retrieval_error e urls \<and> no_creation_error e \<and> no_dispatch_error e"
  then show "\<exists>resp s'. processBulkAnalysis e urls uid name s = (Inr resp, s')"
    using processBulkAnalysis_returns no_creation_error_accepts by blast
next
  fix resp s'
  assume a: "processBulkAnalysis e urls uid name s = (Inr resp, s')"
  note c = processBulkAnalysis_Inr[OF a]
  from c show "length (analysis_ids resp) = length (filter (resolved name) (all_games e urls))"
    by simp
  from c show "skip_count resp = length (filter (\<lambda>g. \<not> resolved name g) (all_games e urls))"
    by simp
  from c filter_partition_length[of "resolved name" "all_games e urls"]
  show "length (analysis_ids resp) + skip_count resp = length (all_games e urls)"
    by simp
  from a show "total_games resp = length (analysis_ids resp)"
    by (auto simp: processBulkAnalysis_def Let_def split: prod.splits option.splits)
qed

theorem bulk_created_plus_skipped_witness:
  "no_retrieval_error example_env example_urls \<and> no_creation_error example_env
   \<and> no_dispatch_error example_env
   \<and> processBulkAnalysis example_env example_urls ''guest'' ''Ann'' init
       = (Inr example_response, example_pending)
   \<and> length (analysis_ids example_response) + skip_count example_response
       = length (all_games example_env example_urls)
   \<and> length (analysis_ids example_response) = 2 \<and> skip_count example_response = 1"
proof -
  have r: "no_retrieval_error example_env example_urls"
    by (simp add: no_retrieval_error_def example_urls_def ex_download_a ex_download_b)
  have d: "no_dispatch_error example_env" by (simp add: no_dispatch_error_def example_env_def)
  have c: "no_creation_error example_env" by (simp add: no_creation_error_def example_env_def)
  have n: "length (analysis_ids example_response) = 2" "skip_count example_response = 1"
    by (simp_all add: example_response_def skip_count_def)
  from bulk_created_plus_skipped [of example_env example_urls "''guest''" "''Ann''" init]
    ex_submit
  have "length (analysis_ids example_response) + skip_count example_response
          = length (all_games example_env example_urls)"
    by blast
  with r c d n ex_submit show ?thesis by simp
qed

lemma process_urls_append:
  "process_urls e b uid name (xs @ ys) acc =
     (case process_urls e b uid name xs acc of
        (Some err, acc') \<Rightarrow> (Some err, acc')
      | (None, acc') \<Rightarrow> process_urls e b uid name ys acc')"
  by (induction xs arbitrary: acc) (auto split: sum.splits prod.splits option.splits)

lemma enqueue_docs: "enqueue e i s = (q, s') \<Longrightarrow> docs s' = docs s"
  by (auto simp: enqueue_def split: if_splits option.splits)

lemma Analysis_create_docs:
  assumes "Analysis_create e d s = (q, s')"
  shows "case q of None \<Rightarrow> docs s' = docs s @ [apply_defaults d] | Some err \<Rightarrow> s' = s"
proof (cases "create_error e (docs s) (apply_defaults d)")
  case None
  with assms have "q = None" "s' = s\<lparr>docs := docs s @ [apply_defaults d]\<rparr>"
    by (simp_all add: Analysis_create_def)
  then show ?thesis by simp
next
  case (Some err)
  with assms have "q = Some err" "s' = s" by (simp_all add: Analysis_create_def)
  then show ?thesis by simp
qed

lemma process_games_docs:
  "process_games e b url uid name games (ids, sk, s) = (r, ids', sk', s') \<Longrightarrow>
   \<exists>new. docs s' = docs s @ new \<and> list_all (created_for name) new
     \<and> (r = None \<longrightarrow> length ids' = length ids + length new)"
proof (induction games arbitrary: ids sk s)
  case Nil
  then show ?case by simp
next
  case (Cons g games)
  show ?case
  proof (cases "determinePlayerColor (metadata g) name")
    case None
    with Cons.prems
    have "process_games e b url uid name games (ids, sk @ [skip_entry name g], s)
            = (r, ids', sk', s')"
      by simp
    from Cons.IH[OF this] show ?thesis .
  next
    case (Some c)
    define aid where "aid = ''ana_'' @ uuidv4 e (uuid_count s)"
    define d where "d = \<lparr> analysis_id = aid, user_id = uid, batch_id = Some b,
                        status = PENDING, doc_pgn = pgn g, gcs_url = Some url,
                        player_name = name, player_color = Some c,
                        doc_metadata = metadata g, doc_result = no_result, error = None,
                        completed_at = None \<rparr>"
    define s1 where "s1 = s\<lparr>uuid_count := Suc (uuid_count s)\<rparr>"
    have dok: "created_for name (apply_defaults d)"
      by (simp add: d_def Some created_for_def apply_defaults_fields apply_defaults_no_result)
    obtain qc s2 where qc: "Analysis_create e d s1 = (qc, s2)"
      by (cases "Analysis_create e d s1") auto
    show ?thesis
    proof (cases qc)
      case (Some err)
      with Analysis_create_docs[OF qc] have "docs s2 = docs s" by (simp add: s1_def)
      moreover from Cons.prems \<open>determinePlayerColor (metadata g) name = Some c\<close> qc Some
      have "s' = s2" "r = Some err"
        by (auto simp add: Let_def aid_def s1_def d_def)
      ultimately show ?thesis by (intro exI[of _ "[]"]) simp
    next
      case None
      with Analysis_create_docs[OF qc] have d2: "docs s2 = docs s @ [apply_defaults d]"
        by (simp add: s1_def)
      obtain q s3 where q: "enqueue e aid s2 = (q, s3)" by (cases "enqueue e aid s2") auto
      note d3 = enqueue_docs[OF q]
      show ?thesis
      proof (cases q)
        case None
        with Cons.prems \<open>determinePlayerColor (metadata g) name = Some c\<close> qc \<open>qc = None\<close> q
        have "process_games e b url uid name games (ids @ [aid], sk, s3) = (r, ids', sk', s')"
          by (simp add: Let_def aid_def s1_def d_def)
        from Cons.IH[OF this] obtain new where
          "docs s' = docs s3 @ new" "list_all (created_for name) new"
          "r = None \<longrightarrow> length ids' = length (ids @ [aid]) + length new"
          by blast
        with d2 d3 dok show ?thesis
          by (intro exI[of _ "apply_defaults d # new"]) simp
      next
        case (Some err)
        with Cons.prems \<open>determinePlayerColor (metadata g) name = Some c\<close> qc \<open>qc = None\<close> q
        have "s' = s3" "r = Some err"
          by (auto simp add: Let_def aid_def s1_def d_def)
        with d2 d3 dok show ?thesis
          by (intro exI[of _ "[apply_defaults d]"]) simp
      qed
    qed
  qed
qed

lemma process_urls_docs:
  "process_urls e b uid name urls (ids, sk, s) = (r, ids', sk', s') \<Longrightarrow>
   \<exists>new. docs s' = docs s @ new \<and> list_all (created_for name) new
     \<and> (r = None \<longrightarrow> length ids' = length ids + length new)"
proof (induction urls arbitrary: ids sk s)
  case Nil
  then show ?case by simp
next
  case (Cons u urls)
  show ?case
  proof (cases "downloadFile e u")
    case (Inl err)
    with Cons.prems show ?thesis by auto
  next
    case (Inr c)
    obtain r1 ids1 sk1 s1 where
      g: "process_games e b u uid name (splitPgn c) (ids, sk, s) = (r1, ids1, sk1, s1)"
      by (metis prod_cases4)
    from process_games_docs[OF g] obtain new1 where
      n1: "docs s1 = docs s @ new1" "list_all (created_for name) new1"
          "r1 = None \<longrightarrow> length ids1 = length ids + length new1"
      by blast
    show ?thesis
    proof (cases r1)
      case None
      with Cons.prems Inr g
      have "process_urls e b uid name urls (ids1, sk1, s1) = (r, ids', sk', s')" by simp
      from Cons.IH[OF this] obtain new2 where
        "docs s' = docs s1 @ new2" "list_all (created_for name) new2"
        "r = None \<longrightarrow> length ids' = length ids1 + length new2"
        by blast
      with n1 None show ?thesis
        by (intro exI[of _ "new1 @ new2"]) simp
    next
      case (Some err)
      with Cons.prems Inr g have "s' = s1" "r = Some err" by auto
      with n1 show ?thesis by (intro exI[of _ new1]) simp
    qed
  qed
qed

lemma processBulkAnalysis_docs:
  assumes "processBulkAnalysis e urls uid name s = (r, s')"
  shows "\<exists>new. docs s' = docs s @ new \<and> list_all (created_for name) new
           \<and> (\<forall>resp. r = Inr resp \<longrightarrow> length (analysis_ids resp) = length new)"
proof -
  obtain q ids sk s1 where
    p: "process_urls e (''batch_'' @ uuidv4 e (uuid_count s)) uid name urls
          ([], [], s\<lparr>uuid_count := Suc (uuid_count s)\<rparr>) = (q, ids, sk, s1)"
    by (metis prod_cases4)
  from process_urls_docs[OF p] obtain new where
    n: "docs s1 = docs s @ new" "list_all (created_for name) new"
       "q = None \<longrightarrow> length ids = length new"
    by auto
  from assms p have "s' = s1" "\<forall>resp. r = Inr resp \<longrightarrow> q = None \<and> analysis_ids resp = ids"
    by (auto simp: processBulkAnalysis_def Let_def split: option.splits)
  with n show ?thesis by (intro exI[of _ new]) auto
qed

text \<open>
  Claim C8. When the earlier file references of a submission are processed without error
  and the retrieval of the next one fails, the call ends with that error, and the system
  is left as the earlier files alone leave it: their jobs stay, one per identifier
  created, and nothing is created for the failing file or for a later one.
\<close>

theorem retrieval_failure_aborts:
  assumes "processBulkAnalysis e pre uid name s = (Inr resp1, s1)"
    and "downloadFile e u = Inl err"
  shows "processBulkAnalysis e (pre @ u # post) uid name s = (Inl err, s1)
         \<and> (\<exists>new. docs s1 = docs s @ new \<and> length new = length (analysis_ids resp1))"
proof -
  from assms(1) obtain ids sk where
    p: "process_urls e (''batch_'' @ uuidv4 e (uuid_count s)) uid name pre
          ([], [], s\<lparr>uuid_count := Suc (uuid_count s)\<rparr>) = (None, ids, sk, s1)"
    by (auto simp: processBulkAnalysis_def Let_def split: prod.splits option.splits)
  have "processBulkAnalysis e (pre @ u # post) uid name s = (Inl err, s1)"
    unfolding processBulkAnalysis_def Let_def process_urls_append p
    by (simp add: assms(2))
  moreover from processBulkAnalysis_docs[OF assms(1)]
  have "\<exists>new. docs s1 = docs s @ new \<and> length new = length (analysis_ids resp1)"
    by auto
  ultimately show ?thesis by simp
qed

theorem retrieval_failure_aborts_witness:
  "processBulkAnalysis example_env example_urls ''guest'' ''Ann'' init
     = (Inr example_response, example_pending)
   \<and> downloadFile example_env ''games/c.pgn''
       = Inl (JsError ''Invalid GCS URL format: games/c.pgn'')
   \<and> processBulkAnalysis example_env (example_urls @ [''games/c.pgn'', ''gs://games/a.pgn''])
        ''guest'' ''Ann'' init
       = (Inl (JsError ''Invalid GCS URL format: games/c.pgn''), example_pending)
   \<and> length (docs example_pending) = 2"
  using retrieval_failure_aborts [OF ex_submit ex_download_c, of "[''gs://games/a.pgn'']"]
    ex_submit ex_download_c
  by (simp add: example_pending_def)

section \<open>The worker\<close>

lemma findOne_Some:
  "findOne P ds = Some k \<Longrightarrow> k < length ds \<and> P (ds ! k)"
proof (induction ds arbitrary: k)
  case Nil
  then show ?case by simp
next
  case (Cons d ds)
  then show ?case by (cases "P d") auto
qed

lemma findOne_update:
  "findOne P ds = Some k \<Longrightarrow> P d' \<Longrightarrow> findOne P (ds[k := d']) = Some k"
proof (induction ds arbitrary: k)
  case Nil
  then show ?case by simp
next
  case (Cons d ds)
  then show ?case by (cases "P d") auto
qed

lemma failure_reason_cases:
  "failure_reason (JsError m) = m" "failure_reason JsOther = ''Unknown error''"
  by (simp_all add: failure_reason_def)

lemma failure_reason_nonempty: "err \<noteq> JsError [] \<Longrightarrow> failure_reason err \<noteq> []"
  by (cases err) (auto simp: failure_reason_def)

text \<open>The \<open>catch\<close> block, by the answer of the store to its save.\<close>

lemma catch_block_eq:
  "catch_block e k d err ws s =
     (case save_error e (d\<lparr>status := FAILED, error := Some (failure_reason err)\<rparr>) of
        Some err' \<Rightarrow> (Some err', ws, s)
      | None \<Rightarrow>
          (None, ws @ [d\<lparr>status := FAILED, error := Some (failure_reason err)\<rparr>],
           s\<lparr>docs := (docs s)[k := d\<lparr>status := FAILED, error := Some (failure_reason err)\<rparr>]\<rparr>))"
  by (simp add: catch_block_def save_def failure_reason_def Let_def split: option.splits)

lemma processAnalysis_not_found:
  "findOne (\<lambda>d. analysis_id d = i) (docs s) = None \<Longrightarrow> processAnalysis e i s = (None, [], s)"
  by (simp add: processAnalysis_def)

lemma processAnalysis_not_pending:
  "findOne (\<lambda>d. analysis_id d = i) (docs s) = Some k \<Longrightarrow> status (docs s ! k) \<noteq> PENDING \<Longrightarrow>
   processAnalysis e i s = (None, [], s)"
  by (simp add: processAnalysis_def)

text \<open>A call of the worker on a pending job, by the answers of the collaborators.\<close>

lemma processAnalysis_pending:
  assumes "findOne (\<lambda>d. analysis_id d = i) (docs s) = Some k"
    and "status (docs s ! k) = PENDING"
  shows "processAnalysis e i s =
     (case save_error e ((docs s ! k)\<lparr>status := PROCESSING\<rparr>) of
        Some err \<Rightarrow> catch_block e k ((docs s ! k)\<lparr>status := PROCESSING\<rparr>) err [] s
      | None \<Rightarrow>
          (case model_call e (docs s ! k) of
             Inl err \<Rightarrow>
               catch_block e k ((docs s ! k)\<lparr>status := PROCESSING\<rparr>) err
                 [(docs s ! k)\<lparr>status := PROCESSING\<rparr>]
                 (s\<lparr>docs := (docs s)[k := (docs s ! k)\<lparr>status := PROCESSING\<rparr>]\<rparr>)
           | Inr r \<Rightarrow>
               (case save_error e ((docs s ! k)\<lparr>doc_result := assign_result r,
                                     status := COMPLETED, completed_at := Some (clock e)\<rparr>) of
                  Some err \<Rightarrow>
                    catch_block e k
                      ((docs s ! k)\<lparr>doc_result := assign_result r, status := COMPLETED,
                                    completed_at := Some (clock e)\<rparr>) err
                      [(docs s ! k)\<lparr>status := PROCESSING\<rparr>]
                      (s\<lparr>docs := (docs s)[k := (docs s ! k)\<lparr>status := PROCESSING\<rparr>]\<rparr>)
                | None \<Rightarrow>
                    (None,
                     [(docs s ! k)\<lparr>status := PROCESSING\<rparr>,
                      (docs s ! k)\<lparr>doc_result := assign_result r, status := COMPLETED,
                                    completed_at := Some (clock e)\<rparr>],
                     s\<lparr>docs := (docs s)[k := (docs s ! k)\<lparr>doc_result := assign_result r,
                                                          status := COMPLETED,
                                                          completed_at := Some (clock e)\<rparr>]\<rparr>))))"
  using assms
  by (simp add: processAnalysis_def model_call_def save_def Let_def
        split: option.splits sum.splits)

text \<open>
  What a call of the worker on a pending job leaves: the error that leaves the call, the
  documents written, and the store, which holds the last document written in place of
  the job.
\<close>

lemma processAnalysis_outcome:
  assumes "findOne (\<lambda>d. analysis_id d = i) (docs s) = Some k"
    and "status (docs s ! k) = PENDING"
  shows "\<exists>r ws. processAnalysis e i s
                  = (r, ws, if ws = [] then s else s\<lparr>docs := (docs s)[k := last ws]\<rparr>)
           \<and> map status ws \<in> {[], [PROCESSING], [FAILED], [PROCESSING, COMPLETED],
                                [PROCESSING, FAILED]}
           \<and> (\<forall>d \<in> set ws.
                 analysis_id d = i \<and> status d \<noteq> PENDING
                 \<and> (status d = PROCESSING \<longrightarrow>
                       doc_result d = doc_result (docs s ! k) \<and> error d = error (docs s ! k))
                 \<and> (status d = COMPLETED \<longrightarrow> error d = error (docs s ! k))
                 \<and> (status d = FAILED \<longrightarrow> error d \<noteq> None))"
proof -
  from findOne_Some[OF assms(1)] have a: "analysis_id (docs s ! k) = i" by simp
  have "snd (snd (processAnalysis e i s))
          = (if fst (snd (processAnalysis e i s)) = [] then s
             else s\<lparr>docs := (docs s)[k := last (fst (snd (processAnalysis e i s)))]\<rparr>)
        \<and> map status (fst (snd (processAnalysis e i s)))
             \<in> {[], [PROCESSING], [FAILED], [PROCESSING, COMPLETED], [PROCESSING, FAILED]}
        \<and> (\<forall>d \<in> set (fst (snd (processAnalysis e i s))).
                 analysis_id d = i \<and> status d \<noteq> PENDING
                 \<and> (status d = PROCESSING \<longrightarrow>
                       doc_result d = doc_result (docs s ! k) \<and> error d = error (docs s ! k))
                 \<and> (status d = COMPLETED \<longrightarrow> error d = error (docs s ! k))
                 \<and> (status d = FAILED \<longrightarrow> error d \<noteq> None))"
    unfolding processAnalysis_pending[OF assms] catch_block_eq
    using a by (simp split: option.split sum.split)
  then show ?thesis
    by (intro exI[of _ "fst (processAnalysis e i s)"]
              exI[of _ "fst (snd (processAnalysis e i s))"])
       (simp add: prod_eq_iff)
qed

lemma created_for_job_ok: "created_for name d \<Longrightarrow> job_ok d"
  by (simp add: created_for_def job_ok_def)

lemma list_all_update: "list_all P xs \<Longrightarrow> P y \<Longrightarrow> list_all P (xs[k := y])"
  by (induction xs arbitrary: k) (auto split: nat.splits)

lemma processAnalysis_job_ok:
  assumes "list_all job_ok (docs s)"
  shows "list_all job_ok (docs (snd (snd (processAnalysis e i s))))
         \<and> list_all job_ok (fst (snd (processAnalysis e i s)))"
proof (cases "findOne (\<lambda>d. analysis_id d = i) (docs s)")
  case None
  with assms show ?thesis by (simp add: processAnalysis_not_found)
next
  case (Some k)
  show ?thesis
  proof (cases "status (docs s ! k) = PENDING")
    case False
    with assms Some show ?thesis by (simp add: processAnalysis_not_pending)
  next
    case True
    from findOne_Some[OF Some] assms have "job_ok (docs s ! k)"
      by (simp add: list_all_length)
    with True have j: "doc_result (docs s ! k) = default_result" "error (docs s ! k) = None"
      by (simp_all add: job_ok_def)
    from processAnalysis_outcome[OF Some True, of e] obtain r ws where
      p: "processAnalysis e i s
            = (r, ws, if ws = [] then s else s\<lparr>docs := (docs s)[k := last ws]\<rparr>)"
      and w: "\<forall>d \<in> set ws.
                 analysis_id d = i \<and> status d \<noteq> PENDING
                 \<and> (status d = PROCESSING \<longrightarrow>
                       doc_result d = doc_result (docs s ! k) \<and> error d = error (docs s ! k))
                 \<and> (status d = COMPLETED \<longrightarrow> error d = error (docs s ! k))
                 \<and> (status d = FAILED \<longrightarrow> error d \<noteq> None)"
      by blast
    have ok: "job_ok d" if "d \<in> set ws" for d
      using w that j by (cases "status d") (auto simp: job_ok_def)
    then have "list_all job_ok ws" by (simp add: list_all_iff)
    moreover have "list_all job_ok (docs (if ws = [] then s else s\<lparr>docs := (docs s)[k := last ws]\<rparr>))"
      using assms ok[of "last ws"] by (auto simp: list_all_update)
    ultimately show ?thesis by (simp add: p)
  qed
qed

lemma step_job_ok: "list_all job_ok (docs s) \<Longrightarrow> list_all job_ok (docs (step c s))"
proof (cases c)
  case (Submit e urls uid name)
  assume a: "list_all job_ok (docs s)"
  obtain r s' where p: "processBulkAnalysis e urls uid name s = (r, s')"
    by (cases "processBulkAnalysis e urls uid name s") auto
  from processBulkAnalysis_docs[OF p] obtain new where
    "docs s' = docs s @ new" "list_all (created_for name) new" by blast
  with a Submit p show ?thesis
    by (auto simp: list_all_iff created_for_job_ok)
next
  case (Work e i)
  assume a: "list_all job_ok (docs s)"
  from processAnalysis_job_ok[OF a, of e i] Work show ?thesis by simp
qed

lemma fold_step_job_ok:
  "list_all job_ok (docs s) \<Longrightarrow> list_all job_ok (docs (fold step calls s))"
  by (induction calls arbitrary: s) (auto intro: step_job_ok)

lemma run_job_ok: "list_all job_ok (docs (run calls))"
  unfolding run_def by (rule fold_step_job_ok) (simp add: init_def)

text \<open>After a call that wrote something, a further call finds the job past pending.\<close>

lemma processAnalysis_again:
  assumes "fst (snd (processAnalysis e i s)) \<noteq> []"
  shows "processAnalysis e' i (snd (snd (processAnalysis e i s)))
           = (None, [], snd (snd (processAnalysis e i s)))"
proof (cases "findOne (\<lambda>d. analysis_id d = i) (docs s)")
  case None
  with assms show ?thesis by (simp add: processAnalysis_not_found)
next
  case (Some k)
  show ?thesis
  proof (cases "status (docs s ! k) = PENDING")
    case False
    with assms Some show ?thesis by (simp add: processAnalysis_not_pending)
  next
    case True
    from processAnalysis_outcome[OF Some True, of e] obtain r ws where
      p: "processAnalysis e i s
            = (r, ws, if ws = [] then s else s\<lparr>docs := (docs s)[k := last ws]\<rparr>)"
      and w: "\<forall>d \<in> set ws. analysis_id d = i \<and> status d \<noteq> PENDING"
      by blast
    from assms p have ne: "ws \<noteq> []" by simp
    with w have l: "analysis_id (last ws) = i" "status (last ws) \<noteq> PENDING" by simp_all
    let ?s' = "s\<lparr>docs := (docs s)[k := last ws]\<rparr>"
    from findOne_update[OF Some, of "last ws"] l
    have "findOne (\<lambda>d. analysis_id d = i) (docs ?s') = Some k" by simp
    moreover from l findOne_Some[OF Some] have "status (docs ?s' ! k) \<noteq> PENDING" by simp
    ultimately have "processAnalysis e' i ?s' = (None, [], ?s')"
      by (rule processAnalysis_not_pending)
    with p ne show ?thesis by simp
  qed
qed

lemma processAnalysis_monotone:
  "(fst (snd (processAnalysis e i s)) = [] \<longrightarrow> snd (snd (processAnalysis e i s)) = s)
   \<and> length (docs (snd (snd (processAnalysis e i s)))) = length (docs s)
   \<and> (\<forall>j < length (docs s).
         docs (snd (snd (processAnalysis e i s))) ! j = docs s ! j
         \<or> (status (docs s ! j) = PENDING
            \<and> status (docs (snd (snd (processAnalysis e i s))) ! j)
                 \<in> {PROCESSING, COMPLETED, FAILED}))
   \<and> (\<forall>j < length (docs s).
         status_rank (status (docs s ! j))
           \<le> status_rank (status (docs (snd (snd (processAnalysis e i s))) ! j)))
   \<and> map status (fst (snd (processAnalysis e i s)))
        \<in> {[], [PROCESSING], [FAILED], [PROCESSING, COMPLETED], [PROCESSING, FAILED]}"
proof (cases "findOne (\<lambda>d. analysis_id d = i) (docs s)")
  case None
  then show ?thesis by (simp add: processAnalysis_not_found)
next
  case (Some k)
  show ?thesis
  proof (cases "status (docs s ! k) = PENDING")
    case False
    with Some show ?thesis by (simp add: processAnalysis_not_pending)
  next
    case True
    from processAnalysis_outcome[OF Some True, of e] obtain r ws where
      p: "processAnalysis e i s
            = (r, ws, if ws = [] then s else s\<lparr>docs := (docs s)[k := last ws]\<rparr>)"
      and m: "map status ws \<in> {[], [PROCESSING], [FAILED], [PROCESSING, COMPLETED],
                                [PROCESSING, FAILED]}"
      by (elim exE conjE) (rule that)
    from m have l: "ws \<noteq> [] \<longrightarrow> status (last ws) \<in> {PROCESSING, COMPLETED, FAILED}"
      by (cases ws rule: rev_cases) auto
    have c: "(docs s)[k := last ws] ! j = docs s ! j
             \<or> (status (docs s ! j) = PENDING
                \<and> status ((docs s)[k := last ws] ! j) \<in> {PROCESSING, COMPLETED, FAILED})"
      if "ws \<noteq> []" "j < length (docs s)" for j
      using that l True by (cases "j = k") simp_all
    have r: "status_rank (status (docs s ! j))
               \<le> status_rank (status ((docs s)[k := last ws] ! j))"
      if "ws \<noteq> []" "j < length (docs s)" for j
      using c[OF that] by auto
    from m c r show ?thesis by (simp add: p)
  qed
qed

lemma step_monotone:
  "length (docs s) \<le> length (docs (step c s))
   \<and> (\<forall>j < length (docs s).
         status_rank (status (docs s ! j)) \<le> status_rank (status (docs (step c s) ! j)))"
proof (cases c)
  case (Submit e urls uid name)
  obtain r s' where p: "processBulkAnalysis e urls uid name s = (r, s')"
    by (cases "processBulkAnalysis e urls uid name s") auto
  from processBulkAnalysis_docs[OF p] obtain new where "docs s' = docs s @ new" by blast
  with Submit p show ?thesis by (simp add: nth_append)
next
  case (Work e i)
  with processAnalysis_monotone[of e i s] show ?thesis by simp
qed

lemma fold_step_monotone:
  "length (docs s) \<le> length (docs (fold step calls s))
   \<and> (\<forall>j < length (docs s).
         status_rank (status (docs s ! j))
           \<le> status_rank (status (docs (fold step calls s) ! j)))"
proof (induction calls arbitrary: s)
  case Nil
  then show ?case by simp
next
  case (Cons c calls)
  from step_monotone[of s c] Cons[of "step c s"] show ?case
    by (auto intro: order_trans)
qed

text \<open>
  Claim C3. When the stored status of the job is not pending, a call of the worker on its
  identifier writes nothing, leaves the system as it is and returns normally. Hence, once
  a first call has written the job, and so has taken its status past pending, a second
  call on the same identifier is without effect, whatever the collaborators. A call that
  writes nothing leaves the system as it is. A call of the worker leaves each job as it is
  or takes it from pending to processing, completed or failed; the documents it writes, if
  any, are the job as processing and then as completed or failed, or only the first of
  them, or the job as failed only; so no call, and no sequence of submissions and worker
  calls, lowers the status of a job along pending, processing, completed or failed.
\<close>

theorem worker_skips_non_pending:
  "(findOne (\<lambda>d. analysis_id d = i) (docs s) = Some k \<and> status (docs s ! k) \<noteq> PENDING
      \<longrightarrow> processAnalysis e i s = (None, [], s))
   \<and> (fst (snd (processAnalysis e i s)) \<noteq> [] \<longrightarrow>
        (\<forall>e'. processAnalysis e' i (snd (snd (processAnalysis e i s)))
                = (None, [], snd (snd (processAnalysis e i s)))))
   \<and> (fst (snd (processAnalysis e i s)) = [] \<longrightarrow> snd (snd (processAnalysis e i s)) = s)
   \<and> length (docs (snd (snd (processAnalysis e i s)))) = length (docs s)
   \<and> (\<forall>j < length (docs s).
         docs (snd (snd (processAnalysis e i s))) ! j = docs s ! j
         \<or> (status (docs s ! j) = PENDING
            \<and> status (docs (snd (snd (processAnalysis e i s))) ! j)
                 \<in> {PROCESSING, COMPLETED, FAILED}))
   \<and> (\<forall>j < length (docs s).
         status_rank (status (docs s ! j))
           \<le> status_rank (status (docs (snd (snd (processAnalysis e i s))) ! j)))
   \<and> map status (fst (snd (processAnalysis e i s)))
        \<in> {[], [PROCESSING], [FAILED], [PROCESSING, COMPLETED], [PROCESSING, FAILED]}
   \<and> (\<forall>calls. \<forall>j < length (docs s).
         j < length (docs (fold step calls s))
         \<and> status_rank (status (docs s ! j))
             \<le> status_rank (status (docs (fold step calls s) ! j)))"
proof -
  have 1: "findOne (\<lambda>d. analysis_id d = i) (docs s) = Some k \<and> status (docs s ! k) \<noteq> PENDING
      \<longrightarrow> processAnalysis e i s = (None, [], s)"
    by (simp add: processAnalysis_not_pending)
  have 2: "fst (snd (processAnalysis e i s)) \<noteq> [] \<longrightarrow>
        (\<forall>e'. processAnalysis e' i (snd (snd (processAnalysis e i s)))
                = (None, [], snd (snd (processAnalysis e i s))))"
    by (simp add: processAnalysis_again)
  have 3: "\<forall>calls. \<forall>j < length (docs s).
         j < length (docs (fold step calls s))
         \<and> status_rank (status (docs s ! j))
             \<le> status_rank (status (docs (fold step calls s) ! j))"
  proof (intro allI impI)
    fix calls j assume "j < length (docs s)"
    with fold_step_monotone[of s calls]
    show "j < length (docs (fold step calls s))
          \<and> status_rank (status (docs s ! j))
              \<le> status_rank (status (docs (fold step calls s) ! j))"
      by simp
  qed
  from 1 2 3 processAnalysis_monotone[of e i s]
  show ?thesis by (intro conjI) simp_all
qed

theorem worker_skips_non_pending_witness:
  "findOne (\<lambda>d. analysis_id d = ''ana_xx'') (docs example_worked) = Some 0
   \<and> status (docs example_worked ! 0) = FAILED
   \<and> processAnalysis example_env ''ana_xx'' example_worked = (None, [], example_worked)
   \<and> processAnalysis example_env ''ana_xx'' example_pending
       = (None, [job_ann_white\<lparr>status := PROCESSING\<rparr>, job_ann_white_failed], example_worked)
   \<and> processAnalysis flaky_env ''ana_xx'' example_worked = (None, [], example_worked)
   \<and> status_rank (status (docs example_pending ! 0))
       \<le> status_rank (status (docs example_worked ! 0))"
proof -
  have f: "findOne (\<lambda>d. analysis_id d = ''ana_xx'') (docs example_worked) = Some 0"
    by (simp add: example_worked_def job_ann_white_failed_def job_ann_white_def)
  have st: "status (docs example_worked ! 0) = FAILED"
    by (simp add: example_worked_def job_ann_white_failed_def)
  have l: "0 < length (docs example_pending)" by (simp add: example_pending_def)
  note t = worker_skips_non_pending
  from t [of "''ana_xx''" example_worked 0 example_env] f st
  have a: "processAnalysis example_env ''ana_xx'' example_worked = (None, [], example_worked)"
    by simp
  from t [of "''ana_xx''" example_pending 0 example_env]
  have b: "processAnalysis flaky_env ''ana_xx'' example_worked = (None, [], example_worked)"
    by (simp add: ex_work)
  from t [of "''ana_xx''" example_pending 0 example_env] l
  have c: "status_rank (status (docs example_pending ! 0))
             \<le> status_rank (status (docs (snd (snd (processAnalysis example_env ''ana_xx''
                                                      example_pending))) ! 0))"
    by blast
  from f st a b c show ?thesis by (simp add: ex_work)
qed

text \<open>
  Claim C4, as stated, fails. For the first job of the example, pending, the call of the
  model throws in each case. When it throws an \<open>Error\<close> whose message is empty, the stored
  failure reason is the empty string. The failed job carries a result, the one of the
  defaults that it has carried since its creation. When the store rejects the save of the
  failed job, the call of the worker throws the error of the store and the job stays
  processing.
\<close>

theorem worker_failure_reason_counterexample:
  "findOne (\<lambda>d. analysis_id d = ''ana_xx'') (docs example_pending) = Some 0
   \<and> status (docs example_pending ! 0) = PENDING
   \<and> model_call silent_env (docs example_pending ! 0) = Inl (JsError [])
   \<and> fst (processAnalysis silent_env ''ana_xx'' example_pending) = None
   \<and> error (docs (snd (snd (processAnalysis silent_env ''ana_xx'' example_pending))) ! 0)
       = Some []
   \<and> model_call example_env (docs example_pending ! 0) = Inl (JsError ''quota exceeded'')
   \<and> processAnalysis example_env ''ana_xx'' example_pending
       = (None, [job_ann_white\<lparr>status := PROCESSING\<rparr>, job_ann_white_failed], example_worked)
   \<and> docs example_worked ! 0 = job_ann_white_failed
   \<and> status job_ann_white_failed = FAILED
   \<and> has_result job_ann_white_failed
   \<and> doc_result job_ann_white_failed = default_result
   \<and> model_call rejecting_env (docs example_pending ! 0) = Inl (JsError ''quota exceeded'')
   \<and> processAnalysis rejecting_env ''ana_xx'' example_pending
       = (Some (JsError ''connection closed''), [job_ann_white\<lparr>status := PROCESSING\<rparr>],
          example_stuck)
   \<and> status (docs example_stuck ! 0) = PROCESSING"
proof -
  have 1: "findOne (\<lambda>d. analysis_id d = ''ana_xx'') (docs example_pending) = Some 0"
    "status (docs example_pending ! 0) = PENDING"
    by (simp_all add: example_pending_def job_ann_white_def)
  have 2: "fst (processAnalysis silent_env ''ana_xx'' example_pending) = None"
    "error (docs (snd (snd (processAnalysis silent_env ''ana_xx'' example_pending))) ! 0)
       = Some []"
    by code_simp+
  have 3: "docs example_worked ! 0 = job_ann_white_failed"
    "status job_ann_white_failed = FAILED" "has_result job_ann_white_failed"
    "doc_result job_ann_white_failed = default_result"
    "status (docs example_stuck ! 0) = PROCESSING"
    by (simp_all add: example_worked_def example_stuck_def job_ann_white_failed_def
          job_ann_white_def has_result_def default_result_def no_result_def)
  from 1 2 3 ex_model ex_work ex_work_rejecting show ?thesis by simp
qed

text \<open>
  Claim C4, amended. For a pending job on which the worker runs, when the save of the job
  as processing succeeds and the model call throws, the worker catches the error and
  saves the job as failed, with the failure reason and with the result that the job had.
  The failure reason is the message of the thrown \<open>Error\<close>, or \<open>Unknown error\<close> when the
  thrown value is not an \<open>Error\<close>, so it is non-empty unless an \<open>Error\<close> with an empty
  message was thrown. When the store accepts that save, the job ends failed and the call
  returns normally, its writes being the job as processing and the job as failed. When
  the store rejects that save, the call throws the error of the store and the job stays
  processing.
\<close>

theorem worker_records_failure:
  assumes "findOne (\<lambda>d. analysis_id d = i) (docs s) = Some k"
    and "status (docs s ! k) = PENDING"
    and "save_error e ((docs s ! k)\<lparr>status := PROCESSING\<rparr>) = None"
    and "model_call e (docs s ! k) = Inl err"
  shows "(save_error e ((docs s ! k)\<lparr>status := FAILED, error := Some (failure_reason err)\<rparr>)
            = None \<longrightarrow>
          processAnalysis e i s
            = (None,
               [(docs s ! k)\<lparr>status := PROCESSING\<rparr>,
                (docs s ! k)\<lparr>status := FAILED, error := Some (failure_reason err)\<rparr>],
               s\<lparr>docs := (docs s)[k := (docs s ! k)\<lparr>status := FAILED,
                                                    error := Some (failure_reason err)\<rparr>]\<rparr>))
     \<and> (\<forall>err'. save_error e ((docs s ! k)\<lparr>status := FAILED,
                                            error := Some (failure_reason err)\<rparr>)
                 = Some err' \<longrightarrow>
          processAnalysis e i s
            = (Some err', [(docs s ! k)\<lparr>status := PROCESSING\<rparr>],
               s\<lparr>docs := (docs s)[k := (docs s ! k)\<lparr>status := PROCESSING\<rparr>]\<rparr>))
     \<and> doc_result ((docs s ! k)\<lparr>status := FAILED, error := Some (failure_reason err)\<rparr>)
         = doc_result (docs s ! k)
     \<and> (\<forall>m. err = JsError m \<longrightarrow> failure_reason err = m)
     \<and> (err = JsOther \<longrightarrow> failure_reason err = ''Unknown error'')
     \<and> (err \<noteq> JsError [] \<longrightarrow> failure_reason err \<noteq> [])"
  unfolding processAnalysis_pending[OF assms(1,2)] catch_block_eq
  using assms(3,4) by (auto simp: failure_reason_cases failure_reason_nonempty)

theorem worker_records_failure_witness:
  "findOne (\<lambda>d. analysis_id d = ''ana_xx'') (docs example_pending) = Some 0
   \<and> status (docs example_pending ! 0) = PENDING
   \<and> save_error example_env ((docs example_pending ! 0)\<lparr>status := PROCESSING\<rparr>) = None
   \<and> model_call example_env (docs example_pending ! 0) = Inl (JsError ''quota exceeded'')
   \<and> save_error example_env job_ann_white_failed = None
   \<and> processAnalysis example_env ''ana_xx'' example_pending
       = (None, [job_ann_white\<lparr>status := PROCESSING\<rparr>, job_ann_white_failed],
          example_pending\<lparr>docs := [job_ann_white_failed, job_ann_black]\<rparr>)
   \<and> save_error rejecting_env ((docs example_pending ! 0)\<lparr>status := PROCESSING\<rparr>) = None
   \<and> model_call rejecting_env (docs example_pending ! 0) = Inl (JsError ''quota exceeded'')
   \<and> save_error rejecting_env job_ann_white_failed = Some (JsError ''connection closed'')
   \<and> processAnalysis rejecting_env ''ana_xx'' example_pending
       = (Some (JsError ''connection closed''), [job_ann_white\<lparr>status := PROCESSING\<rparr>],
          example_pending\<lparr>docs := [job_ann_white\<lparr>status := PROCESSING\<rparr>, job_ann_black]\<rparr>)"
proof -
  have f: "findOne (\<lambda>d. analysis_id d = ''ana_xx'') (docs example_pending) = Some 0"
    by (simp add: example_pending_def job_ann_white_def)
  have st: "status (docs example_pending ! 0) = PENDING"
    by (simp add: example_pending_def job_ann_white_def)
  have d: "docs example_pending ! 0 = job_ann_white"
    "docs example_pending = [job_ann_white, job_ann_black]"
    by (simp_all add: example_pending_def)
  have r: "job_ann_white\<lparr>status := FAILED, error := Some ''quota exceeded''\<rparr>
             = job_ann_white_failed"
    by (simp add: job_ann_white_failed_def)
  have s1: "save_error example_env d' = None" for d'
    by (simp add: example_env_def)
  have s2: "save_error rejecting_env ((docs example_pending ! 0)\<lparr>status := PROCESSING\<rparr>) = None"
    "save_error rejecting_env job_ann_white_failed = Some (JsError ''connection closed'')"
    by (simp_all add: rejecting_env_def job_ann_white_failed_def)
  note m = ex_model
  from worker_records_failure
         [OF f st s1 m(1)]
  have a: "processAnalysis example_env ''ana_xx'' example_pending
       = (None, [job_ann_white\<lparr>status := PROCESSING\<rparr>, job_ann_white_failed],
          example_pending\<lparr>docs := [job_ann_white_failed, job_ann_black]\<rparr>)"
    by (simp add: d r s1 failure_reason_cases)
  from worker_records_failure
         [OF f st s2(1) m(2)]
  have b: "processAnalysis rejecting_env ''ana_xx'' example_pending
       = (Some (JsError ''connection closed''), [job_ann_white\<lparr>status := PROCESSING\<rparr>],
          example_pending\<lparr>docs := [job_ann_white\<lparr>status := PROCESSING\<rparr>, job_ann_black]\<rparr>)"
    by (simp add: d r s2 failure_reason_cases)
  from f st s1 s2 m a b show ?thesis by (simp add: d)
qed

text \<open>
  Claim C5, as stated, fails. A job carries a result from its creation on, the one of the
  defaults, whatever its status: the first job of the example carries it while pending.
  When the model answers and the store rejects the save of the completed job, the
  \<open>catch\<close> block stores the job as failed with the result of the model and with a
  failure reason.
\<close>

theorem result_and_error_exclusive_counterexample:
  "run [Submit example_env example_urls ''guest'' ''Ann''] = example_pending
   \<and> docs example_pending ! 0 = job_ann_white
   \<and> status job_ann_white = PENDING
   \<and> has_result job_ann_white
   \<and> \<not> exclusive job_ann_white
   \<and> run [Submit example_env example_urls ''guest'' ''Ann'', Work flaky_env ''ana_xx'']
       = example_mixed
   \<and> docs example_mixed ! 0 = job_ann_white_mixed
   \<and> status job_ann_white_mixed = FAILED
   \<and> summary (doc_result job_ann_white_mixed) = Some (JString ''ok'')
   \<and> has_result job_ann_white_mixed
   \<and> error job_ann_white_mixed = Some ''connection closed''
   \<and> \<not> exclusive job_ann_white_mixed"
proof -
  have 1: "docs example_pending ! 0 = job_ann_white" "status job_ann_white = PENDING"
    "has_result job_ann_white" "\<not> exclusive job_ann_white"
    by (simp_all add: example_pending_def job_ann_white_def has_result_def exclusive_def
          default_result_def no_result_def)
  have 2: "docs example_mixed ! 0 = job_ann_white_mixed" "status job_ann_white_mixed = FAILED"
    "summary (doc_result job_ann_white_mixed) = Some (JString ''ok'')"
    "has_result job_ann_white_mixed" "error job_ann_white_mixed = Some ''connection closed''"
    "\<not> exclusive job_ann_white_mixed"
    by (simp_all add: example_mixed_def job_ann_white_mixed_def has_result_def exclusive_def
          assign_result_def no_result_def)
  have 3: "run [Submit example_env example_urls ''guest'' ''Ann'', Work flaky_env ''ana_xx'']
             = example_mixed"
    by (simp add: run_def ex_submit ex_work_flaky)
  from 1 2 3 ex_run(1) show ?thesis by simp
qed

text \<open>
  Claim C5, amended. After any history of submissions and worker calls, a job carries a
  failure reason exactly when its status is failed; so a completed job carries no failure
  reason, and a result and a failure reason occur together in a failed job only. A
  pending or processing job carries the result of the defaults, with empty lists and no
  summary. The same holds for every document that a further call of the worker writes.
\<close>

theorem failure_reason_iff_failed:
  "list_all (\<lambda>d. (error d \<noteq> None) = (status d = FAILED)
                 \<and> (status d \<in> {PENDING, PROCESSING} \<longrightarrow> doc_result d = default_result)
                 \<and> (has_result d \<and> error d \<noteq> None \<longrightarrow> status d = FAILED))
            (docs (run calls))
   \<and> list_all (\<lambda>d. (error d \<noteq> None) = (status d = FAILED)
                   \<and> (status d \<in> {PENDING, PROCESSING} \<longrightarrow> doc_result d = default_result)
                   \<and> (has_result d \<and> error d \<noteq> None \<longrightarrow> status d = FAILED))
              (fst (snd (processAnalysis e i (run calls))))"
proof -
  have j: "(error d \<noteq> None) = (status d = FAILED)
           \<and> (status d \<in> {PENDING, PROCESSING} \<longrightarrow> doc_result d = default_result)
           \<and> (has_result d \<and> error d \<noteq> None \<longrightarrow> status d = FAILED)" if "job_ok d" for d
    using that by (cases "status d") (auto simp: job_ok_def)
  have "list_all job_ok (docs (run calls))" by (rule run_job_ok)
  from processAnalysis_job_ok[OF this, of e i] this show ?thesis
    unfolding list_all_iff using j by blast
qed

theorem failure_reason_iff_failed_witness:
  "run example_history = example_worked
   \<and> list_all (\<lambda>d. (error d \<noteq> None) = (status d = FAILED)) (docs example_worked)
   \<and> docs example_worked = [job_ann_white_failed, job_ann_black]
   \<and> error job_ann_white_failed = Some ''quota exceeded''
   \<and> status job_ann_white_failed = FAILED
   \<and> status job_ann_black = PENDING
   \<and> error job_ann_black = None
   \<and> doc_result job_ann_black = default_result"
  using failure_reason_iff_failed [of example_history]
  by (simp add: ex_run example_worked_def job_ann_white_failed_def job_ann_black_def)

section \<open>The status query\<close>

lemma fold_status_dom:
  "dom (fold (\<lambda>a r. r(analysis_id a \<mapsto> StatusObject (status a))) ds m)
     = dom m \<union> analysis_id ` set ds"
  by (induction ds arbitrary: m) auto

lemma fold_status_lookup:
  "fold (\<lambda>a r. r(analysis_id a \<mapsto> StatusObject (status a))) ds m k =
     (case List.find (\<lambda>d. analysis_id d = k) (rev ds) of
        Some d \<Rightarrow> Some (StatusObject (status d))
      | None \<Rightarrow> m k)"
  by (induction ds rule: rev_induct) auto

lemma fold_status_val:
  assumes "fold (\<lambda>a r. r(analysis_id a \<mapsto> StatusObject (status a))) ds Map.empty k = Some v"
  shows "\<exists>d \<in> set ds. analysis_id d = k \<and> v = StatusObject (status d)"
proof (cases "List.find (\<lambda>d. analysis_id d = k) (rev ds)")
  case None
  with assms show ?thesis by (simp add: fold_status_lookup)
next
  case (Some d)
  then obtain i where "i < length (rev ds)" "d = rev ds ! i" "analysis_id d = k"
    by (auto simp: find_Some_iff)
  then have "d \<in> set ds" "analysis_id d = k"
    using nth_mem[of i "rev ds"] by simp_all
  moreover from assms Some have "v = StatusObject (status d)"
    by (simp add: fold_status_lookup)
  ultimately show ?thesis by blast
qed

text \<open>
  Claim C9, as stated, fails: a queried identifier that names no job, or a job of another
  owner, is not a key of the result.
\<close>

theorem status_query_keys_counterexample:
  "dom (getAnalysesStatus [''ana_xx'', ''ana_zz''] ''guest'' example_worked)
     \<noteq> set [''ana_xx'', ''ana_zz'']
   \<and> dom (getAnalysesStatus [''ana_xx''] ''ann@example.org'' example_worked) \<noteq> set [''ana_xx'']"
  by (simp add: getAnalysesStatus_def example_worked_def example_pending_def
        job_ann_white_failed_def job_ann_white_def job_ann_black_def)

text \<open>
  Claim C9, amended. The keys of the result are the queried identifiers that name a job
  of the caller; they are all the queried identifiers when each of them names such a job.
  Each key is mapped to an object that holds the status of a job of the caller with that
  identifier, and nothing else.
\<close>

theorem status_query_keys:
  "dom (getAnalysesStatus ids userId s) = set ids \<inter> owned_ids userId s
   \<and> (\<forall>k v. getAnalysesStatus ids userId s k = Some v \<longrightarrow>
         (\<exists>d \<in> set (docs s). analysis_id d = k \<and> user_id d = userId
                               \<and> v = StatusObject (status d)))
   \<and> (set ids \<subseteq> owned_ids userId s \<longrightarrow> dom (getAnalysesStatus ids userId s) = set ids)"
proof (intro conjI allI impI)
  show d: "dom (getAnalysesStatus ids userId s) = set ids \<inter> owned_ids userId s"
    by (auto simp: getAnalysesStatus_def fold_status_dom owned_ids_def)
  show "dom (getAnalysesStatus ids userId s) = set ids" if "set ids \<subseteq> owned_ids userId s"
    using d that by auto
next
  fix k v assume "getAnalysesStatus ids userId s k = Some v"
  then show "\<exists>d \<in> set (docs s). analysis_id d = k \<and> user_id d = userId
                               \<and> v = StatusObject (status d)"
    by (auto simp: getAnalysesStatus_def dest!: fold_status_val)
qed

theorem status_query_keys_witness:
  "set [''ana_xx'', ''ana_xxx''] \<subseteq> owned_ids ''guest'' example_worked
   \<and> dom (getAnalysesStatus [''ana_xx'', ''ana_xxx''] ''guest'' example_worked)
       = {''ana_xx'', ''ana_xxx''}
   \<and> getAnalysesStatus [''ana_xx'', ''ana_xxx''] ''guest'' example_worked ''ana_xx''
       = Some (StatusObject FAILED)"
proof -
  have o: "set [''ana_xx'', ''ana_xxx''] \<subseteq> owned_ids ''guest'' example_worked"
    by (simp add: owned_ids_def example_worked_def example_pending_def
          job_ann_white_failed_def job_ann_white_def job_ann_black_def)
  have v: "getAnalysesStatus [''ana_xx'', ''ana_xxx''] ''guest'' example_worked ''ana_xx''
             = Some (StatusObject FAILED)"
    by (simp add: getAnalysesStatus_def example_worked_def example_pending_def
          job_ann_white_failed_def job_ann_white_def job_ann_black_def)
  from status_query_keys [of "[''ana_xx'', ''ana_xxx'']" "''guest''" example_worked] o
  have "dom (getAnalysesStatus [''ana_xx'', ''ana_xxx''] ''guest'' example_worked)
          = {''ana_xx'', ''ana_xxx''}"
    by auto
  with o v show ?thesis by simp
qed

section \<open>A blank subject name\<close>

lemma determinePlayerColor_blank:
  "list_all isWhiteSpace playerName \<Longrightarrow> determinePlayerColor md playerName = Some White"
  by (simp add: determinePlayerColor_def str_includes_sublist trim_blank toLowerCase_blank Let_def)

text \<open>
  With the empty string as subject name and a store that applies the required validator,
  the first game of a file ends the loop: its job is rejected.
\<close>

lemma process_games_empty_name:
  assumes "requires_player_name e"
    and "process_games e b url uid [] games (ids, sk, s) = (r, ids', sk', s')"
  shows "docs s' = docs s \<and> (r = None \<longrightarrow> games = [])"
proof (cases games)
  case Nil
  with assms(2) show ?thesis by simp
next
  case (Cons g gs)
  have c: "determinePlayerColor (metadata g) [] = Some White"
    by (rule determinePlayerColor_blank) simp
  have "create_error e ds (apply_defaults d) \<noteq> None" if "player_name d = []" for ds d
    using assms(1) that by (simp add: requires_player_name_def apply_defaults_fields)
  then have "\<exists>err. Analysis_create e d s0 = (Some err, s0)" if "player_name d = []" for d s0
    using that by (auto simp: Analysis_create_def Let_def split: option.splits)
  from this[of "\<lparr> analysis_id = ''ana_'' @ uuidv4 e (uuid_count s), user_id = uid,
                   batch_id = Some b, status = PENDING, doc_pgn = pgn g, gcs_url = Some url,
                   player_name = [], player_color = Some White,
                   doc_metadata = metadata g, doc_result = no_result, error = None,
                   completed_at = None \<rparr>" "s\<lparr>uuid_count := Suc (uuid_count s)\<rparr>"]
  obtain err where
    "Analysis_create e
       \<lparr> analysis_id = ''ana_'' @ uuidv4 e (uuid_count s), user_id = uid,
         batch_id = Some b, status = PENDING, doc_pgn = pgn g, gcs_url = Some url,
         player_name = [], player_color = Some White,
         doc_metadata = metadata g, doc_result = no_result, error = None,
         completed_at = None \<rparr> (s\<lparr>uuid_count := Suc (uuid_count s)\<rparr>)
     = (Some err, s\<lparr>uuid_count := Suc (uuid_count s)\<rparr>)"
    by auto
  with assms(2) Cons c show ?thesis by (auto simp: Let_def)
qed

lemma process_urls_empty_name:
  assumes "requires_player_name e"
  shows "process_urls e b uid [] urls (ids, sk, s) = (r, ids', sk', s') \<Longrightarrow>
         docs s' = docs s \<and> (r = None \<longrightarrow> all_games e urls = [])"
proof (induction urls arbitrary: ids sk s)
  case Nil
  then show ?case by (simp add: all_games_def)
next
  case (Cons u urls)
  show ?case
  proof (cases "downloadFile e u")
    case (Inl err)
    with Cons.prems show ?thesis by auto
  next
    case (Inr c)
    obtain r1 ids1 sk1 s1 where
      g: "process_games e b u uid [] (splitPgn c) (ids, sk, s) = (r1, ids1, sk1, s1)"
      by (metis prod_cases4)
    note n1 = process_games_empty_name[OF assms g]
    show ?thesis
    proof (cases r1)
      case None
      with Cons.prems Inr g
      have "process_urls e b uid [] urls (ids1, sk1, s1) = (r, ids', sk', s')" by simp
      from Cons.IH[OF this] n1 None Inr show ?thesis
        by (simp add: all_games_def games_of_def)
    next
      case (Some err)
      with Cons.prems Inr g have "s' = s1" "r = Some err" by auto
      with n1 show ?thesis by simp
    qed
  qed
qed

lemma processBulkAnalysis_empty_name:
  assumes "requires_player_name e"
    and "processBulkAnalysis e urls uid [] s = (r, s')"
  shows "docs s' = docs s \<and> (\<forall>resp. r = Inr resp \<longrightarrow> all_games e urls = [])"
proof -
  obtain q ids sk s1 where
    p: "process_urls e (''batch_'' @ uuidv4 e (uuid_count s)) uid [] urls
          ([], [], s\<lparr>uuid_count := Suc (uuid_count s)\<rparr>) = (q, ids, sk, s1)"
    by (metis prod_cases4)
  from process_urls_empty_name[OF assms(1) p]
  have n: "docs s1 = docs s" "q = None \<longrightarrow> all_games e urls = []" by simp_all
  from assms(2) p have "s' = s1" "\<forall>resp. r = Inr resp \<longrightarrow> q = None"
    by (auto simp: processBulkAnalysis_def Let_def split: option.splits)
  with n show ?thesis by auto
qed

lemma ex_strict_fields:
  "file_download strict_env = file_download example_env"
  "uuidv4 strict_env = (\<lambda>n. replicate (Suc n) (CHR ''x''))"
  "useMockQueue strict_env"
  by (simp_all add: strict_env_def example_env_def)

lemma ex_strict:
  "downloadFile strict_env u = downloadFile example_env u"
  unfolding downloadFile_def ex_strict_fields(1) by (rule refl)

lemma ex_all_games_strict:
  "all_games strict_env example_urls = [parsed_ann_white, parsed_ann_black, parsed_other]"
  by (simp add: all_games_def games_of_def example_urls_def ex_strict ex_download_a
        ex_download_b ex_split_a ex_split_b)

lemma ex_strict_requires: "requires_player_name strict_env"
  by (simp add: requires_player_name_def strict_env_def)

text \<open>
  Claim C10, as stated, fails at the empty string. The schema requires \<open>player_name\<close>,
  and the required validator rejects the empty string. With a store that applies it, the
  submission of the example with the empty subject name parses three games, and the
  resolver answers white for the first; the creation of its job throws, the submission
  ends with that error, and no job is created.
\<close>

theorem blank_subject_is_white_counterexample:
  "list_all isWhiteSpace []
   \<and> requires_player_name strict_env
   \<and> no_retrieval_error strict_env example_urls
   \<and> no_dispatch_error strict_env
   \<and> length (all_games strict_env example_urls) = 3
   \<and> processBulkAnalysis strict_env example_urls ''guest'' [] init
       = (Inl (JsError ''Analysis validation failed: player_name is required''),
          init\<lparr>uuid_count := 2\<rparr>)
   \<and> docs (init\<lparr>uuid_count := 2\<rparr>) = []"
proof -
  have r: "no_retrieval_error strict_env example_urls"
    by (simp add: no_retrieval_error_def example_urls_def ex_strict ex_download_a
          ex_download_b)
  have d: "no_dispatch_error strict_env"
    by (simp add: no_dispatch_error_def ex_strict_fields)
  have c: "determinePlayerColor md [] = Some White" for md
    by (rule determinePlayerColor_blank) simp
  have ce: "create_error strict_env ds dd
              = (if player_name dd = []
                 then Some (JsError ''Analysis validation failed: player_name is required'')
                 else None)" for ds dd
    by (simp add: strict_env_def)
  have p: "processBulkAnalysis strict_env example_urls ''guest'' [] init
       = (Inl (JsError ''Analysis validation failed: player_name is required''),
          init\<lparr>uuid_count := 2\<rparr>)"
    by (simp add: processBulkAnalysis_def example_urls_def ex_strict ex_strict_fields
          ex_download_a ex_split_a c ce Analysis_create_def apply_defaults_fields init_def
          Let_def eval_nat_numeral)
  from r d p ex_strict_requires show ?thesis
    by (simp add: ex_all_games_strict init_def)
qed

text \<open>
  Claim C10, amended. When the subject name is empty or consists of white space only, the
  resolver answers white for every metadata. Hence every job that a bulk submission with
  such a name creates has the side white, and a response that the submission returns has
  no skip entries and one job identifier, and the store one new job, for each parsed
  game. The submission returns such a response when no retrieval and no dispatch error
  occurs and the document store accepts the jobs of that subject name. A store that
  applies the required validator to \<open>player_name\<close> does not accept them when the name is
  the empty string: then the submission creates no job, and it returns a response only
  when no game is parsed.
\<close>

theorem blank_subject_is_white:
  assumes "list_all isWhiteSpace playerName"
  shows "determinePlayerColor md playerName = Some White
     \<and> (\<forall>r s'. processBulkAnalysis e urls uid playerName s = (r, s') \<longrightarrow>
          (\<exists>new. docs s' = docs s @ new
             \<and> list_all (\<lambda>d. player_color d = Some White) new
             \<and> (\<forall>resp. r = Inr resp \<longrightarrow>
                   skipped_games resp = None
                   \<and> length (analysis_ids resp) = length (all_games e urls)
                   \<and> length new = length (all_games e urls))))
     \<and> (no_retrieval_error e urls \<and> accepts_jobs_of e playerName \<and> no_dispatch_error e \<longrightarrow>
          (\<exists>resp s'. processBulkAnalysis e urls uid playerName s = (Inr resp, s')))
     \<and> (playerName = [] \<and> requires_player_name e \<longrightarrow>
          (\<forall>r s'. processBulkAnalysis e urls uid playerName s = (r, s') \<longrightarrow>
             docs s' = docs s \<and> (\<forall>resp. r = Inr resp \<longrightarrow> all_games e urls = [])))"
proof (intro conjI allI impI)
  show "determinePlayerColor md playerName = Some White"
    by (rule determinePlayerColor_blank[OF assms])
next
  fix r s' assume p: "processBulkAnalysis e urls uid playerName s = (r, s')"
  have f: "filter (resolved playerName) (all_games e urls) = all_games e urls"
          "filter (\<lambda>g. \<not> resolved playerName g) (all_games e urls) = []"
    by (simp_all add: resolved_def determinePlayerColor_blank[OF assms])
  from processBulkAnalysis_docs[OF p] obtain new where
    n: "docs s' = docs s @ new" "list_all (created_for playerName) new"
       "\<forall>resp. r = Inr resp \<longrightarrow> length (analysis_ids resp) = length new"
    by blast
  from n(2) have w: "list_all (\<lambda>d. player_color d = Some White) new"
    by (simp add: list_all_iff created_for_def determinePlayerColor_blank[OF assms])
  have "\<forall>resp. r = Inr resp \<longrightarrow>
          skipped_games resp = None
          \<and> length (analysis_ids resp) = length (all_games e urls)
          \<and> length new = length (all_games e urls)"
  proof (intro allI impI)
    fix resp assume "r = Inr resp"
    with p processBulkAnalysis_Inr[of e urls uid playerName s resp s'] f n(3)
    show "skipped_games resp = None
          \<and> length (analysis_ids resp) = length (all_games e urls)
          \<and> length new = length (all_games e urls)"
      by simp
  qed
  with n(1) w
  show "\<exists>new. docs s' = docs s @ new
             \<and> list_all (\<lambda>d. player_color d = Some White) new
             \<and> (\<forall>resp. r = Inr resp \<longrightarrow>
                   skipped_games resp = None
                   \<and> length (analysis_ids resp) = length (all_games e urls)
                   \<and> length new = length (all_games e urls))"
    by blast
next
  assume "no_retrieval_error e urls \<and> accepts_jobs_of e playerName \<and> no_dispatch_error e"
  then show "\<exists>resp s'. processBulkAnalysis e urls uid playerName s = (Inr resp, s')"
    using processBulkAnalysis_returns by blast
next
  fix r s'
  assume a: "playerName = [] \<and> requires_player_name e"
    and p: "processBulkAnalysis e urls uid playerName s = (r, s')"
  from a p processBulkAnalysis_empty_name[of e urls uid s r s']
  have "docs s' = docs s \<and> (\<forall>resp. r = Inr resp \<longrightarrow> all_games e urls = [])" by simp
  then show "docs s' = docs s" by simp
next
  fix r s' resp
  assume a: "playerName = [] \<and> requires_player_name e"
    and p: "processBulkAnalysis e urls uid playerName s = (r, s')"
    and r: "r = Inr resp"
  from a p processBulkAnalysis_empty_name[of e urls uid s r s']
  have "docs s' = docs s \<and> (\<forall>resp. r = Inr resp \<longrightarrow> all_games e urls = [])" by simp
  with r show "all_games e urls = []" by simp
qed

theorem blank_subject_is_white_witness:
  "list_all isWhiteSpace ''  ''
   \<and> determinePlayerColor (metadata parsed_other) ''  '' = Some White
   \<and> no_retrieval_error strict_env example_urls \<and> accepts_jobs_of strict_env ''  ''
   \<and> no_dispatch_error strict_env
   \<and> (\<exists>resp s'. processBulkAnalysis strict_env example_urls ''guest'' ''  '' init = (Inr resp, s')
         \<and> skipped_games resp = None \<and> length (analysis_ids resp) = 3
         \<and> list_all (\<lambda>d. player_color d = Some White) (docs s') \<and> length (docs s') = 3)
   \<and> list_all isWhiteSpace []
   \<and> requires_player_name strict_env
   \<and> docs (snd (processBulkAnalysis strict_env example_urls ''guest'' [] init)) = docs init"
proof -
  have b: "list_all isWhiteSpace ''  ''" by (simp add: isWhiteSpace_def)
  have r: "no_retrieval_error strict_env example_urls"
    by (simp add: no_retrieval_error_def example_urls_def ex_strict ex_download_a
          ex_download_b)
  have d: "no_dispatch_error strict_env"
    by (simp add: no_dispatch_error_def ex_strict_fields)
  have c: "accepts_jobs_of strict_env ''  ''"
    by (simp add: accepts_jobs_of_def strict_env_def)
  note t = blank_subject_is_white
             [OF b, of "metadata parsed_other" strict_env example_urls "''guest''" init]
  from t r c d obtain resp s' where
    p: "processBulkAnalysis strict_env example_urls ''guest'' ''  '' init = (Inr resp, s')"
    by blast
  with t obtain new where
    "docs s' = docs init @ new" "list_all (\<lambda>d. player_color d = Some White) new"
    "skipped_games resp = None"
    "length (analysis_ids resp) = length (all_games strict_env example_urls)"
    "length new = length (all_games strict_env example_urls)"
    by blast
  then have "skipped_games resp = None \<and> length (analysis_ids resp) = 3
         \<and> list_all (\<lambda>d. player_color d = Some White) (docs s') \<and> length (docs s') = 3"
    by (simp add: ex_all_games_strict init_def)
  with p have x: "\<exists>resp s'. processBulkAnalysis strict_env example_urls ''guest'' ''  '' init
                     = (Inr resp, s')
         \<and> skipped_games resp = None \<and> length (analysis_ids resp) = 3
         \<and> list_all (\<lambda>d. player_color d = Some White) (docs s') \<and> length (docs s') = 3"
    by blast
  have b0: "list_all isWhiteSpace []" by simp
  from blank_subject_is_white
         [OF b0, of "metadata parsed_other" strict_env example_urls "''guest''" init]
       ex_strict_requires
  have y: "docs (snd (processBulkAnalysis strict_env example_urls ''guest'' [] init))
             = docs init"
    by (cases "processBulkAnalysis strict_env example_urls ''guest'' [] init") simp
  from b t r c d x b0 ex_strict_requires y show ?thesis by blast
qed

section \<open>Header extraction\<close>

lemma match_name_iff:
  "match_name name r = Some r1 \<longleftrightarrow>
     (\<exists>tag. r = tag @ r1 \<and> map canonicalize tag = map canonicalize name)"
proof (induction name r rule: match_name.induct)
  case (1 r)
  then show ?case by auto
next
  case (2 n ns)
  then show ?case by auto
next
  case (3 n ns c r)
  show ?case
  proof
    assume "match_name (n # ns) (c # r) = Some r1"
    then have c: "canonicalize c = canonicalize n" and m: "match_name ns r = Some r1"
      by (auto split: if_splits)
    from m 3 c obtain tag where "r = tag @ r1" "map canonicalize tag = map canonicalize ns"
      by auto
    with c show "\<exists>tag. c # r = tag @ r1 \<and> map canonicalize tag = map canonicalize (n # ns)"
      by (intro exI[of _ "c # tag"]) simp
  next
    assume "\<exists>tag. c # r = tag @ r1 \<and> map canonicalize tag = map canonicalize (n # ns)"
    then obtain tag where t: "c # r = tag @ r1" "map canonicalize tag = map canonicalize (n # ns)"
      by blast
    then obtain t ts where tt: "tag = t # ts" by (cases tag) auto
    with t have "c = t" "r = ts @ r1" "canonicalize t = canonicalize n"
      "map canonicalize ts = map canonicalize ns" by auto
    with 3 show "match_name (n # ns) (c # r) = Some r1" by auto
  qed
qed

lemma not_ws_quote: "\<not> isWhiteSpace (CHR 0x22)"
  by (simp add: isWhiteSpace_def)

lemma takeWhile_ws_append:
  "list_all isWhiteSpace ws \<Longrightarrow> \<not> isWhiteSpace q \<Longrightarrow>
   takeWhile isWhiteSpace (ws @ q # r) = ws \<and> dropWhile isWhiteSpace (ws @ q # r) = q # r"
  by (induction ws) auto

lemma takeWhile_nq_append:
  "CHR 0x22 \<notin> set v \<Longrightarrow>
   takeWhile (\<lambda>x. x \<noteq> CHR 0x22) (v @ CHR 0x22 # r) = v
   \<and> dropWhile (\<lambda>x. x \<noteq> CHR 0x22) (v @ CHR 0x22 # r) = CHR 0x22 # r"
  by (induction v) auto

lemma match_header_iff: "match_header name s = Some v \<longleftrightarrow> header_at name v 0 s"
proof
  assume m: "match_header name s = Some v"
  then obtain r where s: "s = CHR ''['' # r"
    by (cases s) (auto simp: match_header_def split: if_splits)
  from m s obtain r1 where r1: "match_name name r = Some r1"
    by (auto simp: match_header_def split: option.splits)
  from m s r1 obtain r3 where r3: "dropWhile isWhiteSpace r1 = CHR 0x22 # r3"
    and ws: "takeWhile isWhiteSpace r1 \<noteq> []"
    by (auto simp: match_header_def split: list.splits if_splits)
  from m s r1 r3 ws obtain post where
    r4: "dropWhile (\<lambda>x. x \<noteq> CHR 0x22) r3 = CHR 0x22 # CHR '']'' # post"
    and v: "v = takeWhile (\<lambda>x. x \<noteq> CHR 0x22) r3"
    by (auto simp: match_header_def split: list.splits if_splits)
  from r1 obtain tag where tag: "r = tag @ r1" "map canonicalize tag = map canonicalize name"
    by (auto simp: match_name_iff)
  have "r1 = takeWhile isWhiteSpace r1 @ dropWhile isWhiteSpace r1" by simp
  with r3 have e1: "r1 = takeWhile isWhiteSpace r1 @ CHR 0x22 # r3" by simp
  have "r3 = takeWhile (\<lambda>x. x \<noteq> CHR 0x22) r3 @ dropWhile (\<lambda>x. x \<noteq> CHR 0x22) r3" by simp
  with r4 v have e2: "r3 = v @ CHR 0x22 # CHR '']'' # post" by simp
  have nq: "CHR 0x22 \<notin> set v" unfolding v by (auto dest: set_takeWhileD)
  have wsall: "list_all isWhiteSpace (takeWhile isWhiteSpace r1)"
    by (auto simp: list_all_iff dest: set_takeWhileD)
  have "s = [CHR ''[''] @ tag @ takeWhile isWhiteSpace r1 @ [CHR 0x22] @ v
              @ [CHR 0x22, CHR '']''] @ post"
    using s tag(1) e1 e2 by (metis append_Cons append_Nil)
  with tag(2) ws wsall nq show "header_at name v 0 s"
    unfolding header_at_def by (intro exI[of _ tag] exI[of _ "takeWhile isWhiteSpace r1"] exI[of _ post]) simp
next
  assume "header_at name v 0 s"
  then obtain tag ws post where
    s: "s = [CHR ''[''] @ tag @ ws @ [CHR 0x22] @ v @ [CHR 0x22, CHR '']''] @ post"
    and tag: "map canonicalize tag = map canonicalize name"
    and ws: "ws \<noteq> []" "list_all isWhiteSpace ws" and nq: "CHR 0x22 \<notin> set v"
    by (auto simp: header_at_def)
  let ?r1 = "ws @ CHR 0x22 # v @ CHR 0x22 # CHR '']'' # post"
  have 1: "match_name name (tag @ ?r1) = Some ?r1"
    using tag by (auto simp: match_name_iff)
  note 2 = takeWhile_ws_append[OF ws(2) not_ws_quote, of "v @ CHR 0x22 # CHR '']'' # post"]
  note 3 = takeWhile_nq_append[OF nq, of "CHR '']'' # post"]
  show "match_header name s = Some v"
    using ws(1) by (simp add: s match_header_def 1 2 3)
qed

lemma header_at_Cons: "header_at name v (Suc i) (c # cs) \<longleftrightarrow> header_at name v i cs"
  by (simp add: header_at_def)

lemma getHeader_Some_iff:
  "getHeader name p = Some v \<longleftrightarrow>
     (\<exists>i. header_at name v i p \<and> (\<forall>j<i. \<forall>v'. \<not> header_at name v' j p))"
proof (induction p)
  case Nil
  then show ?case by (simp add: header_at_def)
next
  case (Cons c cs)
  show ?case
  proof (cases "match_header name (c # cs)")
    case (Some v0)
    then have h0: "header_at name v0 0 (c # cs)" by (simp add: match_header_iff)
    show ?thesis
    proof
      assume "getHeader name (c # cs) = Some v"
      with Some have "v = v0" by simp
      with h0 show "\<exists>i. header_at name v i (c # cs) \<and> (\<forall>j<i. \<forall>v'. \<not> header_at name v' j (c # cs))"
        by (intro exI[of _ 0]) simp
    next
      assume "\<exists>i. header_at name v i (c # cs) \<and> (\<forall>j<i. \<forall>v'. \<not> header_at name v' j (c # cs))"
      then obtain i where i: "header_at name v i (c # cs)"
        "\<forall>j<i. \<forall>v'. \<not> header_at name v' j (c # cs)" by blast
      with h0 have "i = 0" by (cases i) auto
      with i have "match_header name (c # cs) = Some v" by (simp add: match_header_iff)
      then show "getHeader name (c # cs) = Some v" by simp
    qed
  next
    case None
    then have n0: "\<And>v'. \<not> header_at name v' 0 (c # cs)"
      by (simp add: match_header_iff[symmetric])
    show ?thesis
    proof
      assume "getHeader name (c # cs) = Some v"
      with None Cons obtain i where i: "header_at name v i cs"
        "\<forall>j<i. \<forall>v'. \<not> header_at name v' j cs" by auto
      have "\<forall>j<Suc i. \<forall>v'. \<not> header_at name v' j (c # cs)"
      proof (intro allI impI)
        fix j v' assume "j < Suc i"
        then show "\<not> header_at name v' j (c # cs)"
          using n0 i(2) by (cases j) (auto simp: header_at_Cons)
      qed
      with i(1) show "\<exists>i. header_at name v i (c # cs) \<and> (\<forall>j<i. \<forall>v'. \<not> header_at name v' j (c # cs))"
        by (intro exI[of _ "Suc i"]) (simp add: header_at_Cons)
    next
      assume "\<exists>i. header_at name v i (c # cs) \<and> (\<forall>j<i. \<forall>v'. \<not> header_at name v' j (c # cs))"
      then obtain i where i: "header_at name v i (c # cs)"
        "\<forall>j<i. \<forall>v'. \<not> header_at name v' j (c # cs)" by blast
      with n0 obtain k where k: "i = Suc k" by (cases i) auto
      with i have "header_at name v k cs" by (simp add: header_at_Cons)
      moreover have "\<forall>j<k. \<forall>v'. \<not> header_at name v' j cs"
      proof (intro allI impI)
        fix j v' assume "j < k"
        with i(2) k have "\<not> header_at name v' (Suc j) (c # cs)" by auto
        then show "\<not> header_at name v' j cs" by (simp add: header_at_Cons)
      qed
      ultimately have "getHeader name cs = Some v" using Cons by blast
      with None show "getHeader name (c # cs) = Some v" by simp
    qed
  qed
qed

lemma getHeader_None_iff: "getHeader name p = None \<longleftrightarrow> \<not> has_header name p"
proof (induction p)
  case Nil
  then show ?case by (simp add: has_header_def header_at_def)
next
  case (Cons c cs)
  have split: "has_header name (c # cs) \<longleftrightarrow> (\<exists>v. header_at name v 0 (c # cs)) \<or> has_header name cs"
  proof
    assume "has_header name (c # cs)"
    then obtain i v where "header_at name v i (c # cs)" by (auto simp: has_header_def)
    then show "(\<exists>v. header_at name v 0 (c # cs)) \<or> has_header name cs"
      by (cases i) (auto simp: header_at_Cons has_header_def)
  next
    assume "(\<exists>v. header_at name v 0 (c # cs)) \<or> has_header name cs"
    then show "has_header name (c # cs)"
      unfolding has_header_def using header_at_Cons[of name _ _ c cs] by blast
  qed
  show ?case
  proof (cases "match_header name (c # cs)")
    case None
    then have "\<And>v. \<not> header_at name v 0 (c # cs)" by (simp add: match_header_iff[symmetric])
    with None Cons split show ?thesis by simp
  next
    case (Some v)
    then have "header_at name v 0 (c # cs)" by (simp add: match_header_iff)
    with Some split show ?thesis by auto
  qed
qed

lemma getHeader_first: "getHeader name p = Some v \<longleftrightarrow> first_header name v p"
  by (simp add: getHeader_Some_iff first_header_def)

lemma or_default_cases:
  "or_default None d = d" "or_default (Some []) d = d" "v \<noteq> [] \<Longrightarrow> or_default (Some v) d = v"
  by (simp_all add: or_default_def)

text \<open>
  Claim C7. Header extraction finds a field by the pattern of a bracketed tag, in any
  case, and a quoted value: \<open>getHeader\<close> returns the value of the leftmost header of the
  name, and nothing when the text has no header of the name. When the white, black or
  result header is missing, the metadata carries the sentinel of the field, \<open>Unknown\<close>
  for the two participants and \<open>*\<close> for the outcome, as it does when the value found is
  empty; a non-empty value found is the field. The fields event, date, opening code and
  opening name are absent when the text has no such header, and are the value found
  otherwise. \<open>parseHeaders\<close> is a total function: it never fails.
\<close>

theorem parseHeaders_fields:
  "(getHeader name p = Some v \<longleftrightarrow> first_header name v p)
   \<and> (getHeader name p = None \<longleftrightarrow> \<not> has_header name p)
   \<and> (\<not> has_header ''White'' p \<longrightarrow> white (parseHeaders p) = ''Unknown'')
   \<and> (\<not> has_header ''Black'' p \<longrightarrow> black (parseHeaders p) = ''Unknown'')
   \<and> (\<not> has_header ''Result'' p \<longrightarrow> result (parseHeaders p) = ''*'')
   \<and> (first_header ''White'' [] p \<longrightarrow> white (parseHeaders p) = ''Unknown'')
   \<and> (first_header ''Black'' [] p \<longrightarrow> black (parseHeaders p) = ''Unknown'')
   \<and> (first_header ''Result'' [] p \<longrightarrow> result (parseHeaders p) = ''*'')
   \<and> (first_header ''White'' v p \<and> v \<noteq> [] \<longrightarrow> white (parseHeaders p) = v)
   \<and> (first_header ''Black'' v p \<and> v \<noteq> [] \<longrightarrow> black (parseHeaders p) = v)
   \<and> (first_header ''Result'' v p \<and> v \<noteq> [] \<longrightarrow> result (parseHeaders p) = v)
   \<and> (\<not> has_header ''Event'' p \<longrightarrow> event (parseHeaders p) = None)
   \<and> (\<not> has_header ''Date'' p \<longrightarrow> date (parseHeaders p) = None)
   \<and> (\<not> has_header ''ECO'' p \<longrightarrow> eco (parseHeaders p) = None)
   \<and> (\<not> has_header ''Opening'' p \<longrightarrow> opening_name (parseHeaders p) = None)
   \<and> (first_header ''Event'' v p \<longrightarrow> event (parseHeaders p) = Some v)
   \<and> (first_header ''Date'' v p \<longrightarrow> date (parseHeaders p) = Some v)
   \<and> (first_header ''ECO'' v p \<longrightarrow> eco (parseHeaders p) = Some v)
   \<and> (first_header ''Opening'' v p \<longrightarrow> opening_name (parseHeaders p) = Some v)"
  by (simp add: parseHeaders_def getHeader_first[symmetric] getHeader_None_iff[symmetric]
        or_default_cases)

theorem parseHeaders_fields_witness:
  "\<not> has_header ''Black'' game_other \<and> black (parseHeaders game_other) = ''Unknown''
   \<and> \<not> has_header ''Result'' game_other \<and> result (parseHeaders game_other) = ''*''
   \<and> \<not> has_header ''Event'' game_other \<and> event (parseHeaders game_other) = None
   \<and> first_header ''White'' ''Dan'' game_other \<and> white (parseHeaders game_other) = ''Dan''
   \<and> first_header ''Black'' ''ann lee'' game_ann_black
   \<and> black (parseHeaders game_ann_black) = ''ann lee''"
proof -
  have n: "getHeader ''Black'' game_other = None" "getHeader ''Result'' game_other = None"
    "getHeader ''Event'' game_other = None"
    by code_simp+
  have f: "getHeader ''White'' game_other = Some ''Dan''"
    "getHeader ''Black'' game_ann_black = Some ''ann lee''"
    by code_simp+
  note h = n[unfolded getHeader_None_iff] f[unfolded getHeader_first]
  from h parseHeaders_fields [of _ game_other "''Dan''"]
    parseHeaders_fields [of _ game_ann_black "''ann lee''"]
  show ?thesis by simp
qed

section \<open>Splitting a multi-game text\<close>

lemma not_ws_bracket: "\<not> isWhiteSpace (CHR ''['')"
  by (simp add: isWhiteSpace_def)

lemma ws_LF: "isWhiteSpace LF"
  by (simp add: isWhiteSpace_def LF_def)

lemma takeWhile_ws_context:
  "cs \<noteq> [] \<Longrightarrow> \<not> isWhiteSpace (last cs) \<Longrightarrow>
   takeWhile isWhiteSpace (cs @ t) = takeWhile isWhiteSpace cs
   \<and> dropWhile isWhiteSpace (cs @ t) = dropWhile isWhiteSpace cs @ t
   \<and> dropWhile isWhiteSpace cs \<noteq> []"
  by (induction cs) (auto split: if_splits)

lemma match_boundary_context:
  assumes "s \<noteq> []" "\<not> isWhiteSpace (last s)"
  shows "match_boundary (s @ t) = None \<longleftrightarrow> match_boundary s = None"
proof (cases s)
  case Nil
  with assms show ?thesis by simp
next
  case (Cons c cs)
  show ?thesis
  proof (cases "c = LF")
    case False
    with Cons show ?thesis by (simp add: match_boundary_def)
  next
    case True
    with assms Cons have cs: "cs \<noteq> []" "\<not> isWhiteSpace (last cs)"
      using ws_LF by (auto split: if_splits)
    from takeWhile_ws_context[OF cs, of t] Cons True show ?thesis
      by (auto simp: match_boundary_def Let_def)
  qed
qed

lemma split_loop_scan:
  "boundary_free s \<Longrightarrow> s = [] \<or> \<not> isWhiteSpace (last s) \<Longrightarrow>
   split_loop piece (s @ t) = split_loop (piece @ s) t"
proof (induction s arbitrary: piece)
  case Nil
  then show ?case by simp
next
  case (Cons c cs)
  from Cons.prems have l: "\<not> isWhiteSpace (last (c # cs))" by simp
  from Cons.prems have "match_boundary (c # cs) = None" by simp
  with match_boundary_context[of "c # cs" t] l
  have m: "match_boundary (c # cs @ t) = None" by simp
  from Cons.prems have "boundary_free cs" "cs = [] \<or> \<not> isWhiteSpace (last cs)"
    by (auto split: if_splits)
  from Cons.IH[OF this] m show ?case by simp
qed

lemma split_loop_skip:
  "list_all (\<lambda>c. c \<noteq> LF) a \<Longrightarrow> split_loop piece (a @ t) = split_loop (piece @ a) t"
  by (induction a arbitrary: piece) (auto simp: match_boundary_def)

lemma split_loop_boundary:
  assumes "blank_boundary b" "g \<noteq> []" "hd g = CHR ''[''"
  shows "\<exists>a. list_all isWhiteSpace a \<and> split_loop piece (b @ g @ t) = (piece @ a) # split_loop [] (g @ t)"
proof -
  define a where "a = takeWhile (\<lambda>c. c \<noteq> LF) b"
  define r where "r = dropWhile (\<lambda>c. c \<noteq> LF) b"
  have b: "b = a @ r" by (simp add: a_def r_def)
  from assms(1) have "LF \<in> set b" by (auto simp: blank_boundary_def dest: in_set_butlastD)
  then have rne: "r \<noteq> []" by (auto simp: r_def dropWhile_eq_Nil_conv)
  with hd_dropWhile[of "\<lambda>c. c \<noteq> LF" b] have "hd r = LF" by (simp add: r_def)
  with rne obtain b2 where r: "r = LF # b2" by (cases r) auto
  have aLF: "list_all (\<lambda>c. c \<noteq> LF) a"
    unfolding a_def by (auto simp: list_all_iff dest: set_takeWhileD)
  from assms(1) b have aws: "list_all isWhiteSpace a" and b2ws: "list_all isWhiteSpace b2"
    by (auto simp: blank_boundary_def r)
  have b2ne: "b2 \<noteq> []"
  proof
    assume "b2 = []"
    with b r have "butlast b = a" by simp
    with assms(1) aLF show False by (auto simp: blank_boundary_def list_all_iff)
  qed
  with assms(1) b r have b2last: "last b2 = LF" by (simp add: blank_boundary_def)
  obtain g0 gs where g: "g = g0 # gs" using assms(2) by (cases g) auto
  with assms(3) have g0: "g0 = CHR ''[''" by simp
  have tw: "takeWhile isWhiteSpace (b2 @ g @ t) = b2" "dropWhile isWhiteSpace (b2 @ g @ t) = g @ t"
    using b2ws g g0 not_ws_bracket by (induction b2) auto
  have gt: "g @ t \<noteq> []" "hd (g @ t) = CHR ''[''" using g g0 by simp_all
  have "match_boundary (LF # b2 @ g @ t)
          = (if b2 \<noteq> [] \<and> last b2 = LF \<and> g @ t \<noteq> [] \<and> hd (g @ t) = CHR ''[''
             then Some (g @ t) else None)"
    by (simp only: match_boundary_def list.case Let_def tw refl if_True)
  with b2ne b2last gt have m: "match_boundary (LF # b2 @ g @ t) = Some (g @ t)"
    by simp
  have "split_loop piece (b @ g @ t) = split_loop (piece @ a) (LF # b2 @ g @ t)"
    using split_loop_skip[OF aLF, of piece "LF # b2 @ g @ t"] by (simp add: b r)
  also have "\<dots> = (piece @ a) # split_loop [] (g @ t)"
    using m by simp
  finally show ?thesis using aws by blast
qed

lemma trim_game: "game_record g \<Longrightarrow> list_all isWhiteSpace a \<Longrightarrow> trim (g @ a) = g"
  using trim_core[of "[]" a g] not_ws_bracket by (simp add: game_record_def)

lemma join_games_Cons: "join_games g ((b, g') # rest) = g @ b @ join_games g' rest"
  by (simp add: join_games_def)

lemma split_loop_join:
  "game_record g \<Longrightarrow> list_all (\<lambda>(b, g'). blank_boundary b \<and> game_record g') rest \<Longrightarrow>
   map trim (split_loop [] (join_games g rest)) = g # map snd rest"
proof (induction rest arbitrary: g)
  case Nil
  from split_loop_scan[of g "[]" "[]"] Nil.prems(1)
  have "split_loop [] (join_games g []) = [g]"
    by (simp add: join_games_def game_record_def)
  with trim_game[OF Nil.prems(1), of "[]"] show ?case by simp
next
  case (Cons x rest)
  obtain b g' where x: "x = (b, g')" by (cases x) auto
  with Cons.prems have bb: "blank_boundary b" and gr: "game_record g'"
    and rr: "list_all (\<lambda>(b, g'). blank_boundary b \<and> game_record g') rest" by auto
  obtain t where t: "join_games g' rest = g' @ t" by (simp add: join_games_def)
  from gr have g': "g' \<noteq> []" "hd g' = CHR ''[''" by (simp_all add: game_record_def)
  from split_loop_boundary[OF bb g', of g t] obtain a where
    a: "list_all isWhiteSpace a"
       "split_loop g (b @ g' @ t) = (g @ a) # split_loop [] (g' @ t)" by auto
  from Cons.prems(1) have "split_loop [] (g @ b @ g' @ t) = split_loop g (b @ g' @ t)"
    using split_loop_scan[of g "[]" "b @ g' @ t"] by (simp add: game_record_def)
  with a t have "split_loop [] (join_games g (x # rest)) = (g @ a) # split_loop [] (join_games g' rest)"
    by (simp add: x join_games_Cons)
  with Cons.IH[OF gr rr] trim_game[OF Cons.prems(1) a(1)] show ?case
    by (simp add: x)
qed

lemma collect_games_trim:
  "list_all (\<lambda>t. t \<noteq> []) (map trim ps) \<Longrightarrow>
   collect_games (filter (\<lambda>g. 0 < length (trim g)) ps) = map parsed (map trim ps)"
  by (induction ps) (auto simp: parsed_def Let_def)

lemma game_record_ends:
  "game_record g \<Longrightarrow> g \<noteq> [] \<and> \<not> isWhiteSpace (hd g) \<and> \<not> isWhiteSpace (last g)"
  using not_ws_bracket by (simp add: game_record_def)

lemma join_games_ends:
  "game_record g \<Longrightarrow> list_all (\<lambda>(b, g'). blank_boundary b \<and> game_record g') rest \<Longrightarrow>
   join_games g rest \<noteq> [] \<and> \<not> isWhiteSpace (hd (join_games g rest))
   \<and> \<not> isWhiteSpace (last (join_games g rest))"
proof (induction rest arbitrary: g)
  case Nil
  then show ?case using game_record_ends[of g] by (simp add: join_games_def)
next
  case (Cons x rest)
  obtain b g' where x: "x = (b, g')" by (cases x) auto
  with Cons.prems have gr: "game_record g'"
    and rr: "list_all (\<lambda>(b, g'). blank_boundary b \<and> game_record g') rest" by auto
  from Cons.IH[OF gr rr] game_record_ends[OF Cons.prems(1)] show ?case
    by (simp add: x join_games_Cons)
qed

text \<open>
  Claim C6. For a well-formed multi-game text, made of N game records (a first one and
  N - 1 further ones, each after its blank-line boundary), possibly with white space
  before and after, \<open>splitPgn\<close> returns exactly N games: the records themselves, in the
  order of the text, each with the metadata of its headers; none of the texts is empty.
\<close>

theorem splitPgn_well_formed:
  assumes "game_record g"
    and "list_all (\<lambda>(b, g'). blank_boundary b \<and> game_record g') rest"
    and "list_all isWhiteSpace pre" and "list_all isWhiteSpace post"
  shows "splitPgn (pre @ join_games g rest @ post) = map parsed (g # map snd rest)
         \<and> length (splitPgn (pre @ join_games g rest @ post)) = Suc (length rest)
         \<and> list_all (\<lambda>x. pgn x \<noteq> []) (splitPgn (pre @ join_games g rest @ post))"
proof -
  from join_games_ends[OF assms(1,2)] assms(3,4)
  have t: "trim (pre @ join_games g rest @ post) = join_games g rest"
    by (intro trim_core) simp_all
  note j = split_loop_join[OF assms(1,2)]
  have ne: "list_all (\<lambda>t. t \<noteq> []) (g # map snd rest)"
    using assms(1,2) by (auto simp: list_all_iff game_record_def)
  with j have "list_all (\<lambda>t. t \<noteq> []) (map trim (split_loop [] (join_games g rest)))" by simp
  from collect_games_trim[OF this] j t
  have 1: "splitPgn (pre @ join_games g rest @ post) = map parsed (g # map snd rest)"
    by (simp add: splitPgn_def)
  from ne have "list_all (\<lambda>x. pgn x \<noteq> []) (map parsed (g # map snd rest))"
    by (simp add: list_all_iff parsed_def)
  with 1 show ?thesis by simp
qed

theorem splitPgn_well_formed_witness:
  "game_record game_ann_white \<and> game_record game_ann_black
   \<and> blank_boundary [LF, LF] \<and> blank_boundary [CHR 0x0D, LF, CHR 0x0D, LF]
   \<and> splitPgn file_a = [parsed game_ann_white, parsed game_ann_black]
   \<and> splitPgn (game_ann_white @ [CHR 0x0D, LF, CHR 0x0D, LF] @ game_other)
       = [parsed game_ann_white, parsed game_other]"
proof -
  have g: "game_record game_ann_white" "game_record game_ann_black" "game_record game_other"
    by code_simp+
  have b: "blank_boundary [LF, LF]" "blank_boundary [CHR 0x0D, LF, CHR 0x0D, LF]"
    by code_simp+
  have w: "list_all isWhiteSpace []" "list_all isWhiteSpace [LF]"
    by (simp_all add: isWhiteSpace_def LF_def)
  from splitPgn_well_formed [of game_ann_white "[([LF, LF], game_ann_black)]" "[]" "[LF]"] g b w
  have 1: "splitPgn file_a = [parsed game_ann_white, parsed game_ann_black]"
    by (simp add: join_games_def file_a_def)
  from splitPgn_well_formed
         [of game_ann_white "[([CHR 0x0D, LF, CHR 0x0D, LF], game_other)]" "[]" "[]"] g b w
  have 2: "splitPgn (game_ann_white @ [CHR 0x0D, LF, CHR 0x0D, LF] @ game_other)
             = [parsed game_ann_white, parsed game_other]"
    by (simp add: join_games_def)
  from g b 1 2 show ?thesis by simp
qed

end
